theory Spec2Isabelle
  imports Main "HOL-Library.Word"
begin

unbundle bit_operations_syntax

section \<open>The PAM module pam\_pwquality (src/pam\_pwquality.c)\<close>

text \<open>
  The module is glue between two collaborators that are not part of the file: the
  host framework (Linux-PAM: item store, token retrieval, logging, prompts) and the
  quality library (libpwquality: settings and \<open>pwquality_check\<close>). Both are modelled as
  one deterministic \<^emph>\<open>host\<close>: a function that answers a call in a host state and gives
  the next host state. The module is a state-passing program over that host; every call
  it makes is recorded, with its answer, in a trace, so that statements about "the last
  host call" or "the number of attempt cycles" are statements about the trace.
\<close>

subsection \<open>Constants of the host framework\<close>

text \<open>
  Status codes, flags and item types of Linux-PAM's \<open>security/_pam_types.h\<close> and the
  priorities of \<open>syslog.h\<close>, with the values of these headers. \<open>int\<close> values of the C
  code are HOL integers; no arithmetic on them can overflow (the only arithmetic is
  \<open>tries++\<close> below \<open>retry_times\<close>), and \<open>&\<close>, \<open>|\<close> are \<open>AND\<close>, \<open>OR\<close> on two's
  complement integers.
\<close>

definition PAM_SUCCESS :: int where "PAM_SUCCESS = 0"
definition PAM_SERVICE_ERR :: int where "PAM_SERVICE_ERR = 3"
definition PAM_BUF_ERR :: int where "PAM_BUF_ERR = 5"
definition PAM_MAXTRIES :: int where "PAM_MAXTRIES = 11"
definition PAM_AUTHTOK_ERR :: int where "PAM_AUTHTOK_ERR = 20"

definition PAM_CHANGE_EXPIRED_AUTHTOK :: int where "PAM_CHANGE_EXPIRED_AUTHTOK = 0x0020"
definition PAM_UPDATE_AUTHTOK :: int where "PAM_UPDATE_AUTHTOK = 0x2000"
definition PAM_PRELIM_CHECK :: int where "PAM_PRELIM_CHECK = 0x4000"

datatype item_type = PAM_AUTHTOK | PAM_OLDAUTHTOK | PAM_AUTHTOK_TYPE

datatype priority = LOG_ERR | LOG_NOTICE | LOG_DEBUG

text \<open>The two constants the file defines itself.\<close>

definition PAM_DEBUG_ARG :: int where "PAM_DEBUG_ARG = 0x0001"
definition CO_RETRY_TIMES :: int where "CO_RETRY_TIMES = 1"

subsection \<open>Calls to the host and their answers\<close>

text \<open>
  The text of a \<open>pam_syslog\<close> call is kept as its format (one constructor per call site)
  and its arguments; \<open>pam_strerror\<close> is represented by the status it is applied to.
\<close>

datatype log_msg =
    Reading_config_failed
  | Unknown_or_broken_option string
  | Can_not_get_old_passwd
  | Noverify_returned_error int
  | Bad_password "string option"
  | Password_score int
  | Verify_returned_error int
  | Unknown_flags_setting int

datatype call =
    Pwquality_default_settings
  | Pwquality_read_config
  | Pwquality_set_option string
  | Pwquality_check string "string option"
  | Pam_syslog priority log_msg
  | Pam_set_item item_type "string option"
  | Pam_get_item item_type
  | Pam_get_authtok_noverify
  | Pam_get_authtok_verify string
  | Pam_error "string option"
  | Getuid

text \<open>
  An answer is the integer the call returns (\<open>rc\<close>) and the pointer it returns or stores
  through its output parameter (\<open>ptr\<close>, \<open>None\<close> for \<open>NULL\<close>):
  \<^item> \<open>pwquality_default_settings\<close>: \<open>ptr\<close> is the settings object, \<open>None\<close> when the
    allocation failed;
  \<^item> \<open>pam_get_item\<close>, \<open>pam_get_authtok_noverify\<close>, \<open>pam_get_authtok_verify\<close>: \<open>rc\<close> is
    the status, \<open>ptr\<close> the token;
  \<^item> \<open>pwquality_check\<close>: \<open>rc\<close> is the score or the negative error code, \<open>ptr\<close> is
    \<open>crack_msg\<close>;
  \<^item> \<open>getuid\<close>: \<open>rc\<close> is the user id;
  \<^item> \<open>pwquality_read_config\<close>, \<open>pwquality_set_option\<close>: \<open>rc\<close> is the result;
  \<^item> the module ignores the answers of \<open>pam_syslog\<close>, \<open>pam_set_item\<close> and \<open>pam_error\<close>.
\<close>

record response =
  rc :: int
  ptr :: "string option"

type_synonym 'h host = "call \<Rightarrow> 'h \<Rightarrow> response \<times> 'h"

record 'h world =
  hstate :: 'h
  trace :: "(call \<times> response) list"

definition invoke :: "'h host \<Rightarrow> call \<Rightarrow> 'h world \<Rightarrow> response \<times> 'h world" where
  "invoke H c w =
     (let (r, h') = H c (hstate w)
      in (r, \<lparr>hstate = h', trace = trace w @ [(c, r)]\<rparr>))"

definition start :: "'h \<Rightarrow> 'h world" where
  "start h = \<lparr>hstate = h, trace = []\<rparr>"

subsection \<open>\<open>strtol\<close> and the conversion to \<open>int\<close>\<close>

text \<open>
  \<open>strtol(s, &ep, 10)\<close> of the C library: white space is skipped, an optional sign is
  read, then the longest run of decimal digits; the value is clamped to the range of
  \<open>long\<close> (64 bits, the LP64 targets of the module). When there is no digit, the value is
  0 and \<open>ep\<close> is the start of the string. \<open>ep\<close> is never \<open>NULL\<close>. The assignment to the
  \<open>int\<close> field \<open>retry_times\<close> keeps the low 32 bits, read as signed.
\<close>

definition isspace_c :: "char \<Rightarrow> bool" where
  "isspace_c c \<longleftrightarrow> c \<in> set [CHR '' '', CHR 0x09, CHR 0x0A, CHR 0x0B, CHR 0x0C, CHR 0x0D]"

definition isdigit_c :: "char \<Rightarrow> bool" where
  "isdigit_c c \<longleftrightarrow> 48 \<le> (of_char c :: nat) \<and> (of_char c :: nat) \<le> 57"

definition digits_value :: "string \<Rightarrow> int" where
  "digits_value ds = foldl (\<lambda>a c. a * 10 + (int (of_char c) - 48)) 0 ds"

definition LONG_MAX :: int where "LONG_MAX = 2 ^ 63 - 1"
definition LONG_MIN :: int where "LONG_MIN = - (2 ^ 63)"

definition strtol :: "string \<Rightarrow> int \<times> string option" where
  "strtol s =
     (let s1 = dropWhile isspace_c s;
          neg = (s1 \<noteq> [] \<and> hd s1 = CHR ''-'');
          s2 = (if s1 \<noteq> [] \<and> (hd s1 = CHR ''-'' \<or> hd s1 = CHR ''+'') then tl s1 else s1);
          ds = takeWhile isdigit_c s2
      in if ds = [] then (0, Some s)
         else (if neg then max LONG_MIN (- digits_value ds) else min LONG_MAX (digits_value ds),
               Some (dropWhile isdigit_c s2)))"

definition long_to_int :: "int \<Rightarrow> int" where
  "long_to_int v = sint (word_of_int v :: 32 word)"

subsection \<open>\<open>_pam_parse\<close>\<close>

record module_options =
  retry_times :: int
  pwq :: "string option"

text \<open>
  One turn of the loop over \<open>argv\<close>: \<open>strcmp\<close> is equality, \<open>strncmp(a, p, n)\<close> with
  \<open>n\<close> the length of \<open>p\<close> compares the first \<open>n\<close> characters of \<open>a\<close> with \<open>p\<close>.
\<close>

definition parse_arg ::
  "'h host \<Rightarrow> string \<Rightarrow> int \<times> module_options \<times> 'h world \<Rightarrow> int \<times> module_options \<times> 'h world"
where
  "parse_arg H a s =
     (case s of (ctrl, opt, w) \<Rightarrow>
        if a = ''debug'' then (ctrl OR PAM_DEBUG_ARG, opt, w)
        else if take 5 a = ''type='' then
          (ctrl, opt, snd (invoke H (Pam_set_item PAM_AUTHTOK_TYPE (Some (drop 5 a))) w))
        else if take 6 a = ''retry='' then
          (let (v, ep) = strtol (drop 6 a);
               n = long_to_int v
           in (ctrl, opt\<lparr>retry_times := (if ep = None \<or> n < 1 then CO_RETRY_TIMES else n)\<rparr>, w))
        else if take 15 a = ''reject_username'' then (ctrl, opt, w)
        else if take 12 a = ''authtok_type'' then (ctrl, opt, w)
        else if take 11 a = ''use_authtok'' then (ctrl, opt, w)
        else if take 14 a = ''use_first_pass'' then (ctrl, opt, w)
        else if take 14 a = ''try_first_pass'' then (ctrl, opt, w)
        else
          (let (r, w1) = invoke H (Pwquality_set_option a) w
           in if rc r \<noteq> 0
              then (ctrl, opt, snd (invoke H (Pam_syslog LOG_ERR (Unknown_or_broken_option a)) w1))
              else (ctrl, opt, w1)))"

text \<open>The loop \<open>for (ctrl = 0; argc-- > 0; ++argv)\<close>.\<close>

definition parse_args ::
  "'h host \<Rightarrow> string list \<Rightarrow> int \<times> module_options \<times> 'h world
     \<Rightarrow> int \<times> module_options \<times> 'h world"
where
  "parse_args H argv s = foldl (\<lambda>s a. parse_arg H a s) s argv"

text \<open>
  \<open>_pam_parse\<close> (an Isabelle name cannot start with an underscore). The result is the
  returned \<open>ctrl\<close>, the options structure and the world; \<open>ctrl\<close> is \<open>-1\<close> when the
  settings could not be allocated.
\<close>

definition pam_parse ::
  "'h host \<Rightarrow> module_options \<Rightarrow> string list \<Rightarrow> 'h world \<Rightarrow> int \<times> module_options \<times> 'h world"
where
  "pam_parse H opt argv w =
     (let (r0, w0) = invoke H Pwquality_default_settings w
      in if ptr r0 = None then (- 1, opt, w0)
         else
           (let (r1, w1) = invoke H Pwquality_read_config w0;
                w2 = (if rc r1 \<noteq> 0
                      then snd (invoke H (Pam_syslog LOG_ERR Reading_config_failed) w1)
                      else w1);
                (ctrl, opt', w3) = parse_args H argv (0, opt, w2)
            in (ctrl, opt'\<lparr>pwq := ptr r0\<rparr>, w3)))"

subsection \<open>\<open>make_error_message\<close>\<close>

text \<open>
  The error codes \<open>PWQ_ERROR_...\<close> are macros of \<open>pwquality.h\<close>, which is not among the
  sources at hand: their values are a parameter. C requires the labels of one \<open>switch\<close>
  to be pairwise different, which is \<open>codes_distinct\<close>. The gettext macro \<open>_\<close> is the
  identity (the message id).
\<close>

record pwq_codes =
  PWQ_ERROR_MEM_ALLOC :: int
  PWQ_ERROR_SAME_PASSWORD :: int
  PWQ_ERROR_PALINDROME :: int
  PWQ_ERROR_CASE_CHANGES_ONLY :: int
  PWQ_ERROR_TOO_SIMILAR :: int
  PWQ_ERROR_MIN_DIGITS :: int
  PWQ_ERROR_MIN_UPPERS :: int
  PWQ_ERROR_MIN_LOWERS :: int
  PWQ_ERROR_MIN_OTHERS :: int
  PWQ_ERROR_MIN_LENGTH :: int
  PWQ_ERROR_ROTATED :: int
  PWQ_ERROR_MIN_CLASSES :: int
  PWQ_ERROR_MAX_CONSECUTIVE :: int
  PWQ_ERROR_EMPTY_PASSWORD :: int
  PWQ_ERROR_CRACKLIB_CHECK :: int

definition code_list :: "pwq_codes \<Rightarrow> int list" where
  "code_list K =
     [PWQ_ERROR_MEM_ALLOC K, PWQ_ERROR_SAME_PASSWORD K, PWQ_ERROR_PALINDROME K,
      PWQ_ERROR_CASE_CHANGES_ONLY K, PWQ_ERROR_TOO_SIMILAR K, PWQ_ERROR_MIN_DIGITS K,
      PWQ_ERROR_MIN_UPPERS K, PWQ_ERROR_MIN_LOWERS K, PWQ_ERROR_MIN_OTHERS K,
      PWQ_ERROR_MIN_LENGTH K, PWQ_ERROR_ROTATED K, PWQ_ERROR_MIN_CLASSES K,
      PWQ_ERROR_MAX_CONSECUTIVE K, PWQ_ERROR_EMPTY_PASSWORD K, PWQ_ERROR_CRACKLIB_CHECK K]"

definition codes_distinct :: "pwq_codes \<Rightarrow> bool" where
  "codes_distinct K \<longleftrightarrow> distinct (code_list K)"

definition make_error_message :: "pwq_codes \<Rightarrow> int \<Rightarrow> string option \<Rightarrow> string option" where
  "make_error_message K rv crack_msg =
     (if rv = PWQ_ERROR_MEM_ALLOC K then Some ''memory allocation error''
      else if rv = PWQ_ERROR_SAME_PASSWORD K then Some ''is the same as the old one''
      else if rv = PWQ_ERROR_PALINDROME K then Some ''is a palindrome''
      else if rv = PWQ_ERROR_CASE_CHANGES_ONLY K then Some ''case changes only''
      else if rv = PWQ_ERROR_TOO_SIMILAR K then Some ''is too similar to the old one''
      else if rv = PWQ_ERROR_MIN_DIGITS K \<or> rv = PWQ_ERROR_MIN_UPPERS K
            \<or> rv = PWQ_ERROR_MIN_LOWERS K \<or> rv = PWQ_ERROR_MIN_OTHERS K
            \<or> rv = PWQ_ERROR_MIN_LENGTH K then Some ''is too simple''
      else if rv = PWQ_ERROR_ROTATED K then Some ''is rotated''
      else if rv = PWQ_ERROR_MIN_CLASSES K then Some ''not enough character classes''
      else if rv = PWQ_ERROR_MAX_CONSECUTIVE K
        then Some ''contains too many same characters consecutively''
      else if rv = PWQ_ERROR_EMPTY_PASSWORD K then Some ''No password supplied''
      else if rv = PWQ_ERROR_CRACKLIB_CHECK K then crack_msg
      else Some ''Error in service module'')"

subsection \<open>\<open>pam_sm_chauthtok\<close>\<close>

text \<open>
  The body of the \<open>while\<close> loop ends in one of two ways: a \<open>return\<close> of the entry point,
  or a \<open>continue\<close> with the current value of \<open>retval\<close>.
\<close>

datatype outcome = Return int | Continue int

text \<open>Lines 210 to 220: the second entry of the password.\<close>

definition verify_step :: "'h host \<Rightarrow> string \<Rightarrow> 'h world \<Rightarrow> outcome \<times> 'h world" where
  "verify_step H newtoken w =
     (let (r, w1) = invoke H (Pam_get_authtok_verify newtoken) w
      in if rc r \<noteq> PAM_SUCCESS then
           (let w2 = snd (invoke H (Pam_syslog LOG_ERR (Verify_returned_error (rc r))) w1);
                w3 = snd (invoke H (Pam_set_item PAM_AUTHTOK None) w2)
            in (Continue (rc r), w3))
         else if ptr r = None then (Return PAM_AUTHTOK_ERR, w1)
         else (Return PAM_SUCCESS, w1))"

text \<open>Lines 181 to 220: one attempt cycle, after \<open>tries++\<close>.\<close>

definition attempt ::
  "pwq_codes \<Rightarrow> 'h host \<Rightarrow> int \<Rightarrow> int \<Rightarrow> string option \<Rightarrow> 'h world \<Rightarrow> outcome \<times> 'h world"
where
  "attempt K H ctrl flags oldtoken w =
     (let (r, w1) = invoke H Pam_get_authtok_noverify w
      in if rc r \<noteq> PAM_SUCCESS then
           (Continue (rc r),
            snd (invoke H (Pam_syslog LOG_ERR (Noverify_returned_error (rc r))) w1))
         else case ptr r of
           None \<Rightarrow> (Return PAM_AUTHTOK_ERR, w1)
         | Some newtoken \<Rightarrow>
             (let (q, w2) = invoke H (Pwquality_check newtoken oldtoken) w1
              in if rc q < 0 then
                   (let msg = make_error_message K (rc q) (ptr q);
                        w3 = (if ctrl AND PAM_DEBUG_ARG \<noteq> 0
                              then snd (invoke H (Pam_syslog LOG_DEBUG (Bad_password msg)) w2)
                              else w2);
                        w4 = snd (invoke H (Pam_error msg) w3);
                        (u, w5) = invoke H Getuid w4
                    in if rc u \<noteq> 0 \<or> flags AND PAM_CHANGE_EXPIRED_AUTHTOK \<noteq> 0 then
                         (Continue PAM_AUTHTOK_ERR,
                          snd (invoke H (Pam_set_item PAM_AUTHTOK None) w5))
                       else verify_step H newtoken w5)
                 else
                   (let w3 = (if ctrl AND PAM_DEBUG_ARG \<noteq> 0
                              then snd (invoke H (Pam_syslog LOG_DEBUG (Password_score (rc q))) w2)
                              else w2)
                    in verify_step H newtoken w3)))"

text \<open>
  The loop \<open>while (tries < options.retry_times)\<close>. The result is \<open>Inl status\<close> when the
  body returned from the entry point, and \<open>Inr retval\<close> when the loop ended because the
  condition failed.
\<close>

function update_loop ::
  "pwq_codes \<Rightarrow> 'h host \<Rightarrow> int \<Rightarrow> int \<Rightarrow> int \<Rightarrow> string option \<Rightarrow> int \<Rightarrow> int \<Rightarrow> 'h world
     \<Rightarrow> (int + int) \<times> 'h world"
where
  "update_loop K H ctrl flags retry oldtoken tries retval w =
     (if tries < retry then
        (case attempt K H ctrl flags oldtoken w of
           (Return status, w') \<Rightarrow> (Inl status, w')
         | (Continue retval', w') \<Rightarrow>
             update_loop K H ctrl flags retry oldtoken (tries + 1) retval' w')
      else (Inr retval, w))"
  by pat_completeness auto
termination
  by (relation "measure (\<lambda>(K, H, ctrl, flags, retry, oldtoken, tries, retval, w). nat (retry - tries))")
     auto

text \<open>
  Lines 159 to 221: the old token is read (a failure is tolerated), then the loop runs
  from \<open>tries = 0\<close>. \<open>retval\<close> holds the status of \<open>pam_get_item\<close> when the loop starts.
\<close>

definition update_phase ::
  "pwq_codes \<Rightarrow> 'h host \<Rightarrow> int \<Rightarrow> int \<Rightarrow> module_options \<Rightarrow> 'h world \<Rightarrow> (int + int) \<times> 'h world"
where
  "update_phase K H ctrl flags options w =
     (let (r, w1) = invoke H (Pam_get_item PAM_OLDAUTHTOK) w;
          w2 = (if rc r \<noteq> PAM_SUCCESS \<and> ctrl AND PAM_DEBUG_ARG \<noteq> 0
                then snd (invoke H (Pam_syslog LOG_ERR Can_not_get_old_passwd) w1)
                else w1);
          oldtoken = (if rc r \<noteq> PAM_SUCCESS then None else ptr r)
      in update_loop K H ctrl flags (retry_times options) oldtoken 0 (rc r) w2)"

text \<open>
  The entry point. \<open>argc\<close> and \<open>argv\<close> are the list of option strings; the result is the
  returned status and the world the host is left in.
\<close>

definition init_options :: module_options where
  "init_options = \<lparr>retry_times = CO_RETRY_TIMES, pwq = None\<rparr>"

definition pam_sm_chauthtok ::
  "pwq_codes \<Rightarrow> 'h host \<Rightarrow> int \<Rightarrow> string list \<Rightarrow> 'h \<Rightarrow> int \<times> 'h world"
where
  "pam_sm_chauthtok K H flags argv h =
     (let (ctrl, options, w) = pam_parse H init_options argv (start h)
      in if ctrl < 0 then (PAM_BUF_ERR, w)
         else if flags AND PAM_PRELIM_CHECK \<noteq> 0 then (PAM_SUCCESS, w)
         else if flags AND PAM_UPDATE_AUTHTOK \<noteq> 0 then
           (case update_phase K H ctrl flags options w of
              (Inl status, w3) \<Rightarrow> (status, w3)
            | (Inr retval, w3) \<Rightarrow>
                (if retry_times options > 1 then PAM_MAXTRIES else retval,
                 snd (invoke H (Pam_set_item PAM_AUTHTOK None) w3)))
         else
           (PAM_SERVICE_ERR,
            if ctrl AND PAM_DEBUG_ARG \<noteq> 0
            then snd (invoke H (Pam_syslog LOG_NOTICE (Unknown_flags_setting flags)) w)
            else w))"

subsection \<open>Observations on a run\<close>

text \<open>
  The retry limit the controller uses: the field \<open>retry_times\<close> that \<open>_pam_parse\<close>
  leaves in the options.
\<close>

definition effective_retry :: "'h host \<Rightarrow> string list \<Rightarrow> 'h \<Rightarrow> int" where
  "effective_retry H argv h = retry_times (fst (snd (pam_parse H init_options argv (start h))))"

text \<open>
  The phase flags select the update phase: \<open>PAM_PRELIM_CHECK\<close> is not set and
  \<open>PAM_UPDATE_AUTHTOK\<close> is.
\<close>

definition update_requested :: "int \<Rightarrow> bool" where
  "update_requested flags \<longleftrightarrow>
     flags AND PAM_PRELIM_CHECK = 0 \<and> flags AND PAM_UPDATE_AUTHTOK \<noteq> 0"

text \<open>
  How the loop of the update phase ends, after the parsing of the entry point: \<open>Inl\<close>
  the status returned from inside the loop, \<open>Inr\<close> the last \<open>retval\<close> when the loop is
  exhausted.
\<close>

definition loop_result :: "pwq_codes \<Rightarrow> 'h host \<Rightarrow> int \<Rightarrow> string list \<Rightarrow> 'h \<Rightarrow> int + int" where
  "loop_result K H flags argv h =
     (case pam_parse H init_options argv (start h) of
        (ctrl, options, w) \<Rightarrow> fst (update_phase K H ctrl flags options w))"

text \<open>The settings object could be allocated: \<open>pwquality_default_settings\<close> is not \<open>NULL\<close>.\<close>

definition settings_allocated :: "'h host \<Rightarrow> 'h \<Rightarrow> bool" where
  "settings_allocated H h \<longleftrightarrow> ptr (fst (H Pwquality_default_settings h)) \<noteq> None"

text \<open>
  The last call of a trace is a \<open>pam_get_authtok_verify\<close> that answered success with a
  token.
\<close>

definition verified :: "(call \<times> response) list \<Rightarrow> bool" where
  "verified tr \<longleftrightarrow>
     tr \<noteq> [] \<and>
     (case fst (last tr) of
        Pam_get_authtok_verify t \<Rightarrow> rc (snd (last tr)) = PAM_SUCCESS \<and> ptr (snd (last tr)) \<noteq> None
      | _ \<Rightarrow> False)"

text \<open>The last call of a trace is \<open>pam_set_item(pamh, PAM_AUTHTOK, NULL)\<close>.\<close>

definition cleared :: "(call \<times> response) list \<Rightarrow> bool" where
  "cleared tr \<longleftrightarrow> tr \<noteq> [] \<and> fst (last tr) = Pam_set_item PAM_AUTHTOK None"

text \<open>A token retrieval that answered success with a \<open>NULL\<close> token.\<close>

definition abort_event :: "call \<times> response \<Rightarrow> bool" where
  "abort_event e \<longleftrightarrow>
     (case fst e of
        Pam_get_authtok_noverify \<Rightarrow> rc (snd e) = PAM_SUCCESS \<and> ptr (snd e) = None
      | Pam_get_authtok_verify t \<Rightarrow> rc (snd e) = PAM_SUCCESS \<and> ptr (snd e) = None
      | _ \<Rightarrow> False)"

text \<open>The calls that \<open>_pam_parse\<close> makes.\<close>

definition setup_call :: "call \<Rightarrow> bool" where
  "setup_call c \<longleftrightarrow>
     (case c of
        Pwquality_default_settings \<Rightarrow> True
      | Pwquality_read_config \<Rightarrow> True
      | Pwquality_set_option a \<Rightarrow> True
      | Pam_syslog p m \<Rightarrow> True
      | Pam_set_item i v \<Rightarrow> True
      | _ \<Rightarrow> False)"

text \<open>The number of attempt cycles: each begins with one \<open>pam_get_authtok_noverify\<close>.\<close>

definition cycles :: "(call \<times> response) list \<Rightarrow> nat" where
  "cycles tr = length (filter (\<lambda>e. fst e = Pam_get_authtok_noverify) tr)"

text \<open>
  The value of the variable \<open>retval\<close> after the calls of a trace, following the
  assignments of the source: the four calls whose result is assigned to it, and the
  assignment of \<open>PAM_AUTHTOK_ERR\<close> in the branch taken when \<open>getuid()\<close> is not zero or the
  flag \<open>PAM_CHANGE_EXPIRED_AUTHTOK\<close> is set. The variable is not initialised in the source;
  \<open>pam_get_item\<close> assigns it before it is read, so the start value 0 is never seen.
\<close>

definition retval_step :: "int \<Rightarrow> int \<Rightarrow> call \<times> response \<Rightarrow> int" where
  "retval_step flags rv e =
     (case fst e of
        Pam_get_item i \<Rightarrow> rc (snd e)
      | Pam_get_authtok_noverify \<Rightarrow> rc (snd e)
      | Pwquality_check n old \<Rightarrow> rc (snd e)
      | Pam_get_authtok_verify t \<Rightarrow> rc (snd e)
      | Getuid \<Rightarrow>
          (if rc (snd e) \<noteq> 0 \<or> flags AND PAM_CHANGE_EXPIRED_AUTHTOK \<noteq> 0
           then PAM_AUTHTOK_ERR else rv)
      | _ \<Rightarrow> rv)"

definition retval_of :: "int \<Rightarrow> (call \<times> response) list \<Rightarrow> int" where
  "retval_of flags tr = foldl (retval_step flags) 0 tr"

text \<open>
  The value part of a \<open>retry=\<close> option is numeric when the whole of it is a decimal
  numeral: an optional sign and then digits only, at least one. Anything else (\<open>abc\<close>,
  the empty string, \<open>3abc\<close>, \<open>2.9\<close>) is not numeric.
\<close>

definition numeric :: "string \<Rightarrow> bool" where
  "numeric v \<longleftrightarrow>
     (let ds = (if v \<noteq> [] \<and> (hd v = CHR ''-'' \<or> hd v = CHR ''+'') then tl v else v)
      in ds \<noteq> [] \<and> list_all isdigit_c ds)"

definition non_numeric :: "string \<Rightarrow> bool" where
  "non_numeric v \<longleftrightarrow> \<not> numeric v"

text \<open>
  The value part has no leading number: after white space and an optional sign it does
  not go on with a digit, so that \<open>strtol\<close> has nothing to convert.
\<close>

definition no_leading_number :: "string \<Rightarrow> bool" where
  "no_leading_number v \<longleftrightarrow>
     (case dropWhile isspace_c v of
        [] \<Rightarrow> True
      | c # cs \<Rightarrow>
          if c = CHR ''-'' \<or> c = CHR ''+''
          then (case cs of [] \<Rightarrow> True | d # ds \<Rightarrow> \<not> isdigit_c d)
          else \<not> isdigit_c c)"

text \<open>
  The debug message of a cycle, as a piece of the trace: absent, or one \<open>pam_syslog\<close>
  call at priority \<open>LOG_DEBUG\<close> (present when the option \<open>debug\<close> was given). The
  predicate is used to state the shapes of a cycle's trace.
\<close>

definition debug_log :: "(call \<times> response) list \<Rightarrow> bool" where
  "debug_log dbg \<longleftrightarrow> dbg = [] \<or> (\<exists>m a. dbg = [(Pam_syslog LOG_DEBUG m, a)])"

subsection \<open>A concrete host and a concrete numbering, for running the model\<close>

text \<open>
  A numbering of the error codes (negative and pairwise different), and a host that
  answers the calls it receives with the entries of a script, in order; when the script
  is used up it answers \<open>0\<close> and \<open>NULL\<close>.
\<close>

definition sample_codes :: pwq_codes where
  "sample_codes =
     \<lparr>PWQ_ERROR_MEM_ALLOC = - 9, PWQ_ERROR_SAME_PASSWORD = - 22, PWQ_ERROR_PALINDROME = - 16,
      PWQ_ERROR_CASE_CHANGES_ONLY = - 17, PWQ_ERROR_TOO_SIMILAR = - 10,
      PWQ_ERROR_MIN_DIGITS = - 11, PWQ_ERROR_MIN_UPPERS = - 12, PWQ_ERROR_MIN_LOWERS = - 13,
      PWQ_ERROR_MIN_OTHERS = - 14, PWQ_ERROR_MIN_LENGTH = - 15, PWQ_ERROR_ROTATED = - 18,
      PWQ_ERROR_MIN_CLASSES = - 19, PWQ_ERROR_MAX_CONSECUTIVE = - 20,
      PWQ_ERROR_EMPTY_PASSWORD = - 21, PWQ_ERROR_CRACKLIB_CHECK = - 23\<rparr>"

definition script_host :: "response list host" where
  "script_host c rs = (case rs of [] \<Rightarrow> (\<lparr>rc = 0, ptr = None\<rparr>, []) | r # rs' \<Rightarrow> (r, rs'))"

definition ans :: "int \<Rightarrow> string option \<Rightarrow> response" where
  "ans n p = \<lparr>rc = n, ptr = p\<rparr>"

text \<open>
  Scripts for the host: the preliminary check; an accepted candidate whose verification
  answers success with \<open>NULL\<close>; an accepted candidate that is verified; a candidate that
  is rejected twice for a user who is not root.
\<close>

definition prelim_script :: "response list" where
  "prelim_script = [ans 0 (Some ''settings'')]"

definition abort_script :: "response list" where
  "abort_script =
     [ans 0 (Some ''settings''), ans 0 None, ans 0 (Some ''OldPass1!''),
      ans 0 (Some ''candidate''), ans 80 None, ans 0 None]"

definition accept_script :: "response list" where
  "accept_script =
     [ans 0 (Some ''settings''), ans 0 None, ans 0 (Some ''OldPass1!''),
      ans 0 (Some ''Str0ng&Secure9Z''), ans 80 None, ans 0 (Some ''Str0ng&Secure9Z'')]"

definition reject_script :: "response list" where
  "reject_script =
     [ans 0 (Some ''settings''), ans 0 None, ans 0 (Some ''OldPass1!''),
      ans 0 (Some ''password''), ans (- 15) None, ans 0 None, ans 1000 None, ans 0 None,
      ans 0 (Some ''password''), ans (- 15) None, ans 0 None, ans 1000 None, ans 0 None,
      ans 0 None]"

text \<open>
  One cycle for root and one for another user, both with a candidate that the quality
  check rejects, and the calls each cycle makes; the script of a whole invocation by
  root.
\<close>

definition root_cycle :: "response list" where
  "root_cycle = [ans 0 (Some ''weak''), ans (- 15) None, ans 0 None, ans 0 None, ans 0 (Some ''weak'')]"

definition root_cycle_trace :: "(call \<times> response) list" where
  "root_cycle_trace =
     [(Pam_get_authtok_noverify, ans 0 (Some ''weak'')),
      (Pwquality_check ''weak'' (Some ''OldPass1!''), ans (- 15) None),
      (Pam_error (Some ''is too simple''), ans 0 None),
      (Getuid, ans 0 None),
      (Pam_get_authtok_verify ''weak'', ans 0 (Some ''weak''))]"

definition root_script :: "response list" where
  "root_script = [ans 0 (Some ''settings''), ans 0 None, ans 0 (Some ''OldPass1!'')] @ root_cycle"



section \<open>Auxiliary facts\<close>

lemma status_neq [simp]:
  "PAM_AUTHTOK_ERR \<noteq> PAM_SUCCESS" "PAM_MAXTRIES \<noteq> PAM_SUCCESS" "PAM_BUF_ERR \<noteq> PAM_SUCCESS"
  "PAM_SERVICE_ERR \<noteq> PAM_SUCCESS" "PAM_SUCCESS \<noteq> PAM_AUTHTOK_ERR"
  "PAM_MAXTRIES \<noteq> PAM_AUTHTOK_ERR" "PAM_BUF_ERR \<noteq> PAM_AUTHTOK_ERR"
  "PAM_SERVICE_ERR \<noteq> PAM_AUTHTOK_ERR"
  by (simp_all add: PAM_AUTHTOK_ERR_def PAM_SUCCESS_def PAM_MAXTRIES_def PAM_BUF_ERR_def
        PAM_SERVICE_ERR_def)

lemma invoke_trace: "invoke H c w = (r, w') \<Longrightarrow> trace w' = trace w @ [(c, r)]"
  by (auto simp: invoke_def split: prod.splits)

lemma snd_invoke_trace [simp]:
  "trace (snd (invoke H c w)) = trace w @ [(c, fst (invoke H c w))]"
  by (auto simp: invoke_def split: prod.splits)

subsection \<open>Option parsing\<close>

lemma parse_arg_ctrl: "parse_arg H a (c, opt, w) = (c', opt', w') \<Longrightarrow> 0 \<le> c \<Longrightarrow> 0 \<le> c'"
  by (auto simp: parse_arg_def Let_def PAM_DEBUG_ARG_def split: if_splits prod.splits)

lemma parse_arg_retry:
  "parse_arg H a (c, opt, w) = (c', opt', w') \<Longrightarrow> 1 \<le> retry_times opt \<Longrightarrow> 1 \<le> retry_times opt'"
  by (auto simp: parse_arg_def Let_def CO_RETRY_TIMES_def split: if_splits prod.splits)

lemma parse_arg_trace:
  "parse_arg H a (c, opt, w) = (c', opt', w') \<Longrightarrow>
   \<exists>ev. trace w' = trace w @ ev \<and> (\<forall>e\<in>set ev. setup_call (fst e))"
  by (auto simp: parse_arg_def Let_def setup_call_def split: if_splits prod.splits
           dest!: invoke_trace)

lemma parse_args_inv:
  "parse_args H argv (c, opt, w) = (c', opt', w') \<Longrightarrow>
     (0 \<le> c \<longrightarrow> 0 \<le> c') \<and> (1 \<le> retry_times opt \<longrightarrow> 1 \<le> retry_times opt')
     \<and> (\<exists>ev. trace w' = trace w @ ev \<and> (\<forall>e\<in>set ev. setup_call (fst e)))"
proof (induction argv arbitrary: c' opt' w' rule: rev_induct)
  case Nil
  then show ?case by (simp add: parse_args_def)
next
  case (snoc a argv)
  obtain c1 opt1 w1 where s1: "parse_args H argv (c, opt, w) = (c1, opt1, w1)"
    by (cases "parse_args H argv (c, opt, w)") auto
  with snoc.prems have step: "parse_arg H a (c1, opt1, w1) = (c', opt', w')"
    by (simp add: parse_args_def)
  from snoc.IH [OF s1] parse_arg_ctrl [OF step] parse_arg_retry [OF step] parse_arg_trace [OF step]
  show ?case by auto
qed

text \<open>What \<open>_pam_parse\<close> guarantees, from the initial options of the entry point.\<close>

lemma pam_parse_facts:
  assumes "pam_parse H init_options argv (start h) = (ctrl, options, w)"
  shows "(ctrl < 0 \<longleftrightarrow> \<not> settings_allocated H h)
       \<and> 0 \<le> ctrl + 1 \<and> 1 \<le> retry_times options
       \<and> (\<forall>e\<in>set (trace w). setup_call (fst e))"
proof -
  obtain r0 w0 where i0: "invoke H Pwquality_default_settings (start h) = (r0, w0)"
    by (cases "invoke H Pwquality_default_settings (start h)") auto
  have r0: "r0 = fst (H Pwquality_default_settings h)"
    using i0 by (auto simp: invoke_def start_def split: prod.splits)
  have t0: "trace w0 = [(Pwquality_default_settings, r0)]"
    using invoke_trace [OF i0] by (simp add: start_def)
  show ?thesis
  proof (cases "ptr r0 = None")
    case True
    with assms i0 have "ctrl = - 1" "options = init_options" "w = w0"
      by (simp_all add: pam_parse_def)
    with True r0 t0 show ?thesis
      by (simp add: settings_allocated_def init_options_def CO_RETRY_TIMES_def setup_call_def)
  next
    case False
    obtain r1 w1 where i1: "invoke H Pwquality_read_config w0 = (r1, w1)"
      by (cases "invoke H Pwquality_read_config w0") auto
    define w2 where "w2 = (if rc r1 \<noteq> 0
                      then snd (invoke H (Pam_syslog LOG_ERR Reading_config_failed) w1)
                      else w1)"
    obtain c3 opt3 w3 where p: "parse_args H argv (0, init_options, w2) = (c3, opt3, w3)"
      by (cases "parse_args H argv (0, init_options, w2)") auto
    from assms i0 i1 False p have res: "ctrl = c3" "options = opt3\<lparr>pwq := ptr r0\<rparr>" "w = w3"
      by (simp_all add: pam_parse_def w2_def Let_def)
    have t2: "\<forall>e\<in>set (trace w2). setup_call (fst e)"
      using t0 invoke_trace [OF i1] by (auto simp: w2_def setup_call_def)
    from parse_args_inv [OF p] t2 res False r0
    show ?thesis
      by (fastforce simp: settings_allocated_def init_options_def CO_RETRY_TIMES_def)
  qed
qed

subsection \<open>Traces\<close>

lemma cycles_simps [simp]:
  "cycles [] = 0"
  "cycles (xs @ ys) = cycles xs + cycles ys"
  "cycles ((c, r) # xs) = (if c = Pam_get_authtok_noverify then 1 else 0) + cycles xs"
  by (simp_all add: cycles_def)

lemma retval_of_snoc [simp]:
  "retval_of flags (xs @ [e]) = retval_step flags (retval_of flags xs) e"
  by (simp add: retval_of_def)

lemma verified_snoc [simp]:
  "verified (xs @ [(c, r)]) \<longleftrightarrow>
     (case c of Pam_get_authtok_verify t \<Rightarrow> rc r = PAM_SUCCESS \<and> ptr r \<noteq> None | _ \<Rightarrow> False)"
  by (simp add: verified_def split: call.splits)

lemma cleared_snoc [simp]:
  "cleared (xs @ [(c, r)]) \<longleftrightarrow> c = Pam_set_item PAM_AUTHTOK None"
  by (simp add: cleared_def)

lemma abort_event_simps [simp]:
  "abort_event (Pam_get_authtok_noverify, r) \<longleftrightarrow> rc r = PAM_SUCCESS \<and> ptr r = None"
  "abort_event (Pam_get_authtok_verify t, r) \<longleftrightarrow> rc r = PAM_SUCCESS \<and> ptr r = None"
  "\<not> abort_event (Pam_syslog p m, r)"
  "\<not> abort_event (Pam_set_item i v, r)"
  "\<not> abort_event (Pam_get_item i, r)"
  "\<not> abort_event (Pwquality_check n old, r)"
  "\<not> abort_event (Pam_error msg, r)"
  "\<not> abort_event (Getuid, r)"
  by (simp_all add: abort_event_def)

lemma setup_call_not_abort: "setup_call (fst e) \<Longrightarrow> \<not> abort_event e"
  by (cases e) (auto simp: setup_call_def abort_event_def split: call.splits)

lemma setup_calls_cycles: "\<forall>e\<in>set tr. setup_call (fst e) \<Longrightarrow> cycles tr = 0"
  by (induction tr) (auto simp: setup_call_def)

subsection \<open>One attempt cycle\<close>

text \<open>
  The calls of the verification step, by outcome. \<open>ev\<close> is what the step adds to the trace.
\<close>

lemma verify_step_trace:
  assumes "verify_step H t w = (out, w')"
  shows "\<exists>v ev. trace w' = trace w @ (Pam_get_authtok_verify t, v) # ev \<and>
           (if rc v \<noteq> PAM_SUCCESS
            then out = Continue (rc v) \<and>
                 (\<exists>a b. ev = [(Pam_syslog LOG_ERR (Verify_returned_error (rc v)), a),
                               (Pam_set_item PAM_AUTHTOK None, b)])
            else ev = [] \<and> out = Return (if ptr v = None then PAM_AUTHTOK_ERR else PAM_SUCCESS))"
proof -
  obtain v w1 where i: "invoke H (Pam_get_authtok_verify t) w = (v, w1)"
    by (cases "invoke H (Pam_get_authtok_verify t) w") auto
  show ?thesis
  proof (cases "rc v \<noteq> PAM_SUCCESS")
    case True
    with assms i invoke_trace [OF i] show ?thesis
      by (intro exI [of _ v]) (auto simp: verify_step_def Let_def)
  next
    case False
    with assms i invoke_trace [OF i] show ?thesis
      by (intro exI [of _ v] exI [of _ "[]"]) (auto simp: verify_step_def Let_def)
  qed
qed


lemma attempt_paths:
  assumes "attempt K H ctrl flags old w = (out, w')"
  obtains
    (noverify_error) r a where
      "rc r \<noteq> PAM_SUCCESS" "out = Continue (rc r)"
      "trace w' = trace w @ [(Pam_get_authtok_noverify, r),
                             (Pam_syslog LOG_ERR (Noverify_returned_error (rc r)), a)]"
  | (aborted) r where
      "rc r = PAM_SUCCESS" "ptr r = None" "out = Return PAM_AUTHTOK_ERR"
      "trace w' = trace w @ [(Pam_get_authtok_noverify, r)]"
  | (rejected) r tok q dbg e u c where
      "rc r = PAM_SUCCESS" "ptr r = Some tok" "rc q < 0"
      "rc u \<noteq> 0 \<or> flags AND PAM_CHANGE_EXPIRED_AUTHTOK \<noteq> 0"
      "out = Continue PAM_AUTHTOK_ERR" "debug_log dbg"
      "trace w' = trace w @ [(Pam_get_authtok_noverify, r), (Pwquality_check tok old, q)] @ dbg
                   @ [(Pam_error (make_error_message K (rc q) (ptr q)), e), (Getuid, u),
                      (Pam_set_item PAM_AUTHTOK None, c)]"
  | (override) r tok q dbg e u w5 where
      "rc r = PAM_SUCCESS" "ptr r = Some tok" "rc q < 0"
      "rc u = 0" "flags AND PAM_CHANGE_EXPIRED_AUTHTOK = 0" "debug_log dbg"
      "trace w5 = trace w @ [(Pam_get_authtok_noverify, r), (Pwquality_check tok old, q)] @ dbg
                   @ [(Pam_error (make_error_message K (rc q) (ptr q)), e), (Getuid, u)]"
      "verify_step H tok w5 = (out, w')"
  | (accepted) r tok q dbg w3 where
      "rc r = PAM_SUCCESS" "ptr r = Some tok" "0 \<le> rc q" "debug_log dbg"
      "trace w3 = trace w @ [(Pam_get_authtok_noverify, r), (Pwquality_check tok old, q)] @ dbg"
      "verify_step H tok w3 = (out, w')"
proof -
  define r where "r = fst (invoke H Pam_get_authtok_noverify w)"
  define w1 where "w1 = snd (invoke H Pam_get_authtok_noverify w)"
  have t1: "trace w1 = trace w @ [(Pam_get_authtok_noverify, r)]"
    by (simp add: r_def w1_def)
  show thesis
  proof (cases "rc r \<noteq> PAM_SUCCESS")
    case True
    with assms have "out = Continue (rc r)"
      "w' = snd (invoke H (Pam_syslog LOG_ERR (Noverify_returned_error (rc r))) w1)"
      by (auto simp: attempt_def case_prod_beta r_def w1_def)
    with True t1 show thesis
      by (intro noverify_error [of r]) auto
  next
    case ok: False
    show thesis
    proof (cases "ptr r")
      case None
      with assms ok have "out = Return PAM_AUTHTOK_ERR" "w' = w1"
        by (auto simp: attempt_def case_prod_beta r_def w1_def)
      with ok None t1 show thesis
        by (intro aborted [of r]) auto
    next
      case (Some tok)
      define q where "q = fst (invoke H (Pwquality_check tok old) w1)"
      define w2 where "w2 = snd (invoke H (Pwquality_check tok old) w1)"
      have t2: "trace w2 = trace w1 @ [(Pwquality_check tok old, q)]"
        by (simp add: q_def w2_def)
      show thesis
      proof (cases "rc q < 0")
        case neg: True
        define msg where "msg = make_error_message K (rc q) (ptr q)"
        define w3 where "w3 = (if ctrl AND PAM_DEBUG_ARG \<noteq> 0
                              then snd (invoke H (Pam_syslog LOG_DEBUG (Bad_password msg)) w2)
                              else w2)"
        obtain dbg where t3: "trace w3 = trace w2 @ dbg" "debug_log dbg"
          by (cases "ctrl AND PAM_DEBUG_ARG \<noteq> 0") (auto simp: w3_def debug_log_def)
        define e where "e = fst (invoke H (Pam_error msg) w3)"
        define w4 where "w4 = snd (invoke H (Pam_error msg) w3)"
        define u where "u = fst (invoke H Getuid w4)"
        define w5 where "w5 = snd (invoke H Getuid w4)"
        have t5: "trace w5 = trace w3 @ [(Pam_error msg, e), (Getuid, u)]"
          by (simp add: e_def w4_def u_def w5_def)
        have a: "attempt K H ctrl flags old w =
                  (if rc u \<noteq> 0 \<or> flags AND PAM_CHANGE_EXPIRED_AUTHTOK \<noteq> 0
                   then (Continue PAM_AUTHTOK_ERR, snd (invoke H (Pam_set_item PAM_AUTHTOK None) w5))
                   else verify_step H tok w5)"
          using ok Some neg
          unfolding attempt_def Let_def case_prod_beta w5_def u_def w4_def e_def w3_def msg_def
            w2_def q_def w1_def r_def
          by simp
        show thesis
        proof (cases "rc u \<noteq> 0 \<or> flags AND PAM_CHANGE_EXPIRED_AUTHTOK \<noteq> 0")
          case True
          with assms a
          have "out = Continue PAM_AUTHTOK_ERR"
               "w' = snd (invoke H (Pam_set_item PAM_AUTHTOK None) w5)"
            by auto
          with t1 t2 t3 t5 True ok Some neg show thesis
            by (intro rejected [of r tok q u dbg e]) (auto simp: msg_def)
        next
          case False
          with assms a
          have "verify_step H tok w5 = (out, w')"
            by auto
          with t1 t2 t3 t5 False ok Some neg show thesis
            by (intro override [of r tok q u dbg w5 e]) (auto simp: msg_def)
        qed
      next
        case pos: False
        define w3 where "w3 = (if ctrl AND PAM_DEBUG_ARG \<noteq> 0
                              then snd (invoke H (Pam_syslog LOG_DEBUG (Password_score (rc q))) w2)
                              else w2)"
        obtain dbg where t3: "trace w3 = trace w2 @ dbg" "debug_log dbg"
          by (cases "ctrl AND PAM_DEBUG_ARG \<noteq> 0") (auto simp: w3_def debug_log_def)
        have "attempt K H ctrl flags old w = verify_step H tok w3"
          using ok Some pos
          unfolding attempt_def Let_def case_prod_beta w3_def w2_def q_def w1_def r_def
          by simp
        with assms have "verify_step H tok w3 = (out, w')"
          by simp
        with t1 t2 t3 ok Some pos show thesis
          by (intro accepted [of r tok q dbg w3]) auto
      qed
    qed
  qed
qed

lemma debug_log_facts:
  assumes "debug_log dbg"
  shows "cycles dbg = 0" "foldl (retval_step flags) rv dbg = rv" "\<forall>e\<in>set dbg. \<not> abort_event e"
  using assms by (auto simp: debug_log_def retval_step_def)

lemma retval_of_append:
  "retval_of flags (xs @ ys) = foldl (retval_step flags) (retval_of flags xs) ys"
  by (simp add: retval_of_def)

lemma retval_step_simps [simp]:
  "retval_step flags rv (Pam_get_item i, r) = rc r"
  "retval_step flags rv (Pam_get_authtok_noverify, r) = rc r"
  "retval_step flags rv (Pwquality_check n old, r) = rc r"
  "retval_step flags rv (Pam_get_authtok_verify t, r) = rc r"
  "retval_step flags rv (Getuid, r) =
     (if rc r \<noteq> 0 \<or> flags AND PAM_CHANGE_EXPIRED_AUTHTOK \<noteq> 0 then PAM_AUTHTOK_ERR else rv)"
  "retval_step flags rv (Pam_syslog p m, r) = rv"
  "retval_step flags rv (Pam_set_item i v, r) = rv"
  "retval_step flags rv (Pam_error msg, r) = rv"
  by (simp_all add: retval_step_def)

lemma last_append_facts [simp]:
  "ev \<noteq> [] \<Longrightarrow> verified (pre @ ev) = verified ev"
  "ev \<noteq> [] \<Longrightarrow> cleared (pre @ ev) = cleared ev"
  by (simp_all add: verified_def cleared_def split: call.splits)

text \<open>
  What one cycle adds to the trace: it begins with the only \<open>pam_get_authtok_noverify\<close>
  of the cycle, a token retrieval that answers success with \<open>NULL\<close> can only be its last
  call, and the outcome is read off its last calls.
\<close>

lemma verify_step_facts:
  assumes "verify_step H t w = (out, w')"
  shows "\<exists>ev. trace w' = trace w @ ev \<and> ev \<noteq> [] \<and> cycles ev = 0
          \<and> (\<forall>e\<in>set (butlast ev). \<not> abort_event e)
          \<and> (\<exists>v. hd ev = (Pam_get_authtok_verify t, v))
          \<and> (case out of
                Return s \<Rightarrow> (s = PAM_SUCCESS \<and> verified ev \<and> \<not> abort_event (last ev))
                            \<or> (s = PAM_AUTHTOK_ERR \<and> abort_event (last ev))
              | Continue rv \<Rightarrow> rv \<noteq> PAM_SUCCESS \<and> \<not> abort_event (last ev) \<and> cleared ev
                               \<and> (\<forall>rv0. foldl (retval_step flags) rv0 ev = rv))"
proof -
  from verify_step_trace [OF assms] obtain v ev where
    t: "trace w' = trace w @ (Pam_get_authtok_verify t, v) # ev"
    and c: "if rc v \<noteq> PAM_SUCCESS
            then out = Continue (rc v) \<and>
                 (\<exists>a b. ev = [(Pam_syslog LOG_ERR (Verify_returned_error (rc v)), a),
                               (Pam_set_item PAM_AUTHTOK None, b)])
            else ev = [] \<and> out = Return (if ptr v = None then PAM_AUTHTOK_ERR else PAM_SUCCESS)"
    by blast
  show ?thesis
  proof (cases "rc v \<noteq> PAM_SUCCESS")
    case True
    with c t show ?thesis
      by (intro exI [of _ "(Pam_get_authtok_verify t, v) # ev"]) (auto simp: cleared_def)
  next
    case False
    with c t show ?thesis
      by (intro exI [of _ "(Pam_get_authtok_verify t, v) # ev"]) (auto simp: verified_def)
  qed
qed

lemma attempt_facts:
  assumes "attempt K H ctrl flags old w = (out, w')"
  shows "\<exists>ev. trace w' = trace w @ ev \<and> ev \<noteq> [] \<and> cycles ev = 1
          \<and> (\<forall>e\<in>set (butlast ev). \<not> abort_event e)
          \<and> (case out of
                Return s \<Rightarrow> (s = PAM_SUCCESS \<and> verified ev \<and> \<not> abort_event (last ev))
                            \<or> (s = PAM_AUTHTOK_ERR \<and> abort_event (last ev))
              | Continue rv \<Rightarrow> rv \<noteq> PAM_SUCCESS \<and> \<not> abort_event (last ev)
                               \<and> (\<forall>rv0. foldl (retval_step flags) rv0 ev = rv))"
  using assms
proof (cases rule: attempt_paths)
  case (noverify_error r a)
  then show ?thesis by auto
next
  case (aborted r)
  then show ?thesis by auto
next
  case (rejected r tok q dbg e u c)
  then show ?thesis
    using debug_log_facts [of dbg]
    by (intro exI [of _ "[(Pam_get_authtok_noverify, r), (Pwquality_check tok old, q)] @ dbg
                   @ [(Pam_error (make_error_message K (rc q) (ptr q)), e), (Getuid, u),
                      (Pam_set_item PAM_AUTHTOK None, c)]"]) (auto simp: butlast_append)
next
  case (override r tok q dbg e u w5)
  from verify_step_facts [OF override(8), of flags] obtain ev where
    v: "trace w' = trace w5 @ ev" "ev \<noteq> []" "cycles ev = 0"
       "\<forall>e\<in>set (butlast ev). \<not> abort_event e"
       "case out of
                Return s \<Rightarrow> (s = PAM_SUCCESS \<and> verified ev \<and> \<not> abort_event (last ev))
                            \<or> (s = PAM_AUTHTOK_ERR \<and> abort_event (last ev))
              | Continue rv \<Rightarrow> rv \<noteq> PAM_SUCCESS \<and> \<not> abort_event (last ev) \<and> cleared ev
                               \<and> (\<forall>rv0. foldl (retval_step flags) rv0 ev = rv)"
    by blast
  define pre where "pre = [(Pam_get_authtok_noverify, r), (Pwquality_check tok old, q)] @ dbg
                   @ [(Pam_error (make_error_message K (rc q) (ptr q)), e), (Getuid, u)]"
  have p: "cycles pre = 1" "\<forall>e\<in>set pre. \<not> abort_event e"
    using debug_log_facts [OF override(6)] override(1,2) by (auto simp: pre_def)
  have t: "trace w' = trace w @ pre @ ev"
    using v(1) override(7) by (simp add: pre_def)
  from v p show ?thesis
    by (intro exI [of _ "pre @ ev"])
       (auto simp: t butlast_append split: outcome.splits)
next
  case (accepted r tok q dbg w3)
  from verify_step_facts [OF accepted(6), of flags] obtain ev where
    v: "trace w' = trace w3 @ ev" "ev \<noteq> []" "cycles ev = 0"
       "\<forall>e\<in>set (butlast ev). \<not> abort_event e"
       "case out of
                Return s \<Rightarrow> (s = PAM_SUCCESS \<and> verified ev \<and> \<not> abort_event (last ev))
                            \<or> (s = PAM_AUTHTOK_ERR \<and> abort_event (last ev))
              | Continue rv \<Rightarrow> rv \<noteq> PAM_SUCCESS \<and> \<not> abort_event (last ev) \<and> cleared ev
                               \<and> (\<forall>rv0. foldl (retval_step flags) rv0 ev = rv)"
    by blast
  define pre where "pre = [(Pam_get_authtok_noverify, r), (Pwquality_check tok old, q)] @ dbg"
  have p: "cycles pre = 1" "\<forall>e\<in>set pre. \<not> abort_event e"
    using debug_log_facts [OF accepted(4)] accepted(1,2) by (auto simp: pre_def)
  have t: "trace w' = trace w @ pre @ ev"
    using v(1) accepted(5) by (simp add: pre_def)
  from v p show ?thesis
    by (intro exI [of _ "pre @ ev"])
       (auto simp: t butlast_append split: outcome.splits)
qed

subsection \<open>The loop\<close>

text \<open>
  What the loop adds to the trace, from any counter value: at most \<open>retry - tries\<close>
  cycles, exactly that many when the loop ends by its condition; a token retrieval that
  answers success with \<open>NULL\<close> can only be the last call, and then the loop returned
  \<open>PAM_AUTHTOK_ERR\<close>; a return of \<open>PAM_SUCCESS\<close> follows a verification that answered
  success with a token; on exhaustion \<open>retval\<close> is the value the assignments of the
  trace give, and it is not \<open>PAM_SUCCESS\<close> once a cycle has run.
\<close>

lemma ball_butlast_last:
  "xs \<noteq> [] \<Longrightarrow> (\<forall>e\<in>set xs. P e) \<longleftrightarrow> (\<forall>e\<in>set (butlast xs). P e) \<and> P (last xs)"
  by (induction xs) auto

lemma update_loop_facts:
  "update_loop K H ctrl flags retry old tries rv w = (res, w') \<Longrightarrow>
   \<exists>ev. trace w' = trace w @ ev
      \<and> cycles ev \<le> nat (retry - tries)
      \<and> (\<forall>e\<in>set (butlast ev). \<not> abort_event e)
      \<and> (case res of
            Inl s \<Rightarrow> ev \<noteq> [] \<and> ((s = PAM_SUCCESS \<and> verified ev \<and> \<not> abort_event (last ev))
                                 \<or> (s = PAM_AUTHTOK_ERR \<and> abort_event (last ev)))
          | Inr x \<Rightarrow> cycles ev = nat (retry - tries) \<and> (\<forall>e\<in>set ev. \<not> abort_event e)
                     \<and> x = foldl (retval_step flags) rv ev
                     \<and> (tries < retry \<longrightarrow> x \<noteq> PAM_SUCCESS)
                     \<and> (\<not> tries < retry \<longrightarrow> x = rv))"
proof (induction K H ctrl flags retry old tries rv w arbitrary: res w' rule: update_loop.induct)
  case (1 K H ctrl flags retry old tries rv w)
  note eq = update_loop.simps [of K H ctrl flags retry old tries rv w]
  show ?case
  proof (cases "tries < retry")
    case False
    with "1.prems" eq have "res = Inr rv" "w' = w" by simp_all
    with False show ?thesis by (intro exI [of _ "[]"]) simp
  next
    case True
    obtain out w1 where a: "attempt K H ctrl flags old w = (out, w1)"
      by (cases "attempt K H ctrl flags old w")
    from attempt_facts [OF a] obtain ev1 where
      e1: "trace w1 = trace w @ ev1" "ev1 \<noteq> []" "cycles ev1 = 1"
          "\<forall>e\<in>set (butlast ev1). \<not> abort_event e"
      and o1: "case out of
                Return s \<Rightarrow> (s = PAM_SUCCESS \<and> verified ev1 \<and> \<not> abort_event (last ev1))
                            \<or> (s = PAM_AUTHTOK_ERR \<and> abort_event (last ev1))
              | Continue rv \<Rightarrow> rv \<noteq> PAM_SUCCESS \<and> \<not> abort_event (last ev1)
                               \<and> (\<forall>rv0. foldl (retval_step flags) rv0 ev1 = rv)"
      by blast
    show ?thesis
    proof (cases out)
      case (Return s)
      with a True "1.prems" eq have "res = Inl s" "w' = w1" by simp_all
      with e1 o1 Return True show ?thesis
        by (intro exI [of _ ev1]) auto
    next
      case (Continue rv1)
      with a True "1.prems" eq
      have l: "update_loop K H ctrl flags retry old (tries + 1) rv1 w1 = (res, w')"
        by simp
      from Continue o1 have c1: "rv1 \<noteq> PAM_SUCCESS" "\<not> abort_event (last ev1)"
        "foldl (retval_step flags) rv ev1 = rv1" by auto
      from e1(2,4) c1(2) have clean1: "\<forall>e\<in>set ev1. \<not> abort_event e"
        by (simp add: ball_butlast_last)
      from "1.IH" [OF True a [symmetric] Continue l] obtain ev2 where
        e2: "trace w' = trace w1 @ ev2" "cycles ev2 \<le> nat (retry - (tries + 1))"
            "\<forall>e\<in>set (butlast ev2). \<not> abort_event e"
        and o2: "case res of
            Inl s \<Rightarrow> ev2 \<noteq> [] \<and> ((s = PAM_SUCCESS \<and> verified ev2 \<and> \<not> abort_event (last ev2))
                                 \<or> (s = PAM_AUTHTOK_ERR \<and> abort_event (last ev2)))
          | Inr x \<Rightarrow> cycles ev2 = nat (retry - (tries + 1)) \<and> (\<forall>e\<in>set ev2. \<not> abort_event e)
                     \<and> x = foldl (retval_step flags) rv1 ev2
                     \<and> (tries + 1 < retry \<longrightarrow> x \<noteq> PAM_SUCCESS)
                     \<and> (\<not> tries + 1 < retry \<longrightarrow> x = rv1)"
        by blast
      have n: "1 + nat (retry - (tries + 1)) = nat (retry - tries)"
        using True by simp
      have b: "\<forall>e\<in>set (butlast (ev1 @ ev2)). \<not> abort_event e"
        using clean1 e2(3) by (auto simp: butlast_append dest: in_set_butlastD)
      show ?thesis
      proof (cases res)
        case (Inl s)
        with o2 e1 e2 n b show ?thesis
          by (intro exI [of _ "ev1 @ ev2"]) auto
      next
        case (Inr x)
        with o2 e1 e2 n b c1 clean1 True show ?thesis
          by (intro exI [of _ "ev1 @ ev2"]) auto
      qed
    qed
  qed
qed

subsection \<open>The update phase and the entry point\<close>

lemma update_phase_facts:
  assumes u: "update_phase K H ctrl flags options w = (res, w')"
    and r: "1 \<le> retry_times options"
    and s: "\<forall>e\<in>set (trace w). setup_call (fst e)"
  shows "(\<exists>ev. trace w' = trace w @ ev)
      \<and> cycles (trace w') \<le> nat (retry_times options)
      \<and> (\<forall>e\<in>set (butlast (trace w')). \<not> abort_event e)
      \<and> (case res of
            Inl s \<Rightarrow> trace w' \<noteq> []
                     \<and> ((s = PAM_SUCCESS \<and> verified (trace w') \<and> \<not> abort_event (last (trace w')))
                          \<or> (s = PAM_AUTHTOK_ERR \<and> abort_event (last (trace w'))))
          | Inr x \<Rightarrow> cycles (trace w') = nat (retry_times options)
                     \<and> (\<forall>e\<in>set (trace w'). \<not> abort_event e)
                     \<and> x = retval_of flags (trace w') \<and> x \<noteq> PAM_SUCCESS)"
proof -
  define g where "g = fst (invoke H (Pam_get_item PAM_OLDAUTHTOK) w)"
  define w1 where "w1 = snd (invoke H (Pam_get_item PAM_OLDAUTHTOK) w)"
  define w2 where "w2 = (if rc g \<noteq> PAM_SUCCESS \<and> ctrl AND PAM_DEBUG_ARG \<noteq> 0
                then snd (invoke H (Pam_syslog LOG_ERR Can_not_get_old_passwd) w1)
                else w1)"
  define old where "old = (if rc g \<noteq> PAM_SUCCESS then None else ptr g)"
  have l: "update_loop K H ctrl flags (retry_times options) old 0 (rc g) w2 = (res, w')"
    using u unfolding update_phase_def Let_def case_prod_beta old_def w2_def w1_def g_def
    by simp
  obtain pre where p: "trace w2 = trace w @ pre" "retval_of flags (trace w2) = rc g"
    "cycles pre = 0" "\<forall>e\<in>set pre. \<not> abort_event e"
    by (cases "rc g \<noteq> PAM_SUCCESS \<and> ctrl AND PAM_DEBUG_ARG \<noteq> 0")
       (auto simp: w2_def w1_def g_def retval_of_append)
  have c0: "cycles (trace w) = 0" "\<forall>e\<in>set (trace w). \<not> abort_event e"
    using s setup_calls_cycles setup_call_not_abort by blast+
  from update_loop_facts [OF l] obtain ev where
    e: "trace w' = trace w2 @ ev" "cycles ev \<le> nat (retry_times options - 0)"
       "\<forall>e\<in>set (butlast ev). \<not> abort_event e"
    and o: "case res of
            Inl s \<Rightarrow> ev \<noteq> [] \<and> ((s = PAM_SUCCESS \<and> verified ev \<and> \<not> abort_event (last ev))
                                 \<or> (s = PAM_AUTHTOK_ERR \<and> abort_event (last ev)))
          | Inr x \<Rightarrow> cycles ev = nat (retry_times options - 0) \<and> (\<forall>e\<in>set ev. \<not> abort_event e)
                     \<and> x = foldl (retval_step flags) (rc g) ev
                     \<and> (0 < retry_times options \<longrightarrow> x \<noteq> PAM_SUCCESS)
                     \<and> (\<not> 0 < retry_times options \<longrightarrow> x = rc g)"
    by blast
  have t: "trace w' = (trace w @ pre) @ ev"
    using e(1) p(1) by simp
  have b: "\<forall>e\<in>set (butlast (trace w')). \<not> abort_event e"
    unfolding t using c0(2) p(4) e(3) by (auto simp: butlast_append dest: in_set_butlastD)
  have rv: "retval_of flags (trace w') = foldl (retval_step flags) (rc g) ev"
    using p(2) e(1) by (simp add: retval_of_append)
  show ?thesis
  proof (cases res)
    case (Inl s)
    with o e p c0 b t show ?thesis by auto
  next
    case (Inr x)
    with o e p c0 b t r rv show ?thesis by auto
  qed
qed

text \<open>The entry point in the update phase, in terms of the result of the loop.\<close>

lemma chauthtok_update:
  assumes "pam_parse H init_options argv (start h) = (ctrl, options, w)"
    and "settings_allocated H h"
    and "flags AND PAM_PRELIM_CHECK = 0" and "flags AND PAM_UPDATE_AUTHTOK \<noteq> 0"
  shows "pam_sm_chauthtok K H flags argv h =
           (case update_phase K H ctrl flags options w of
              (Inl status, w3) \<Rightarrow> (status, w3)
            | (Inr retval, w3) \<Rightarrow>
                (if retry_times options > 1 then PAM_MAXTRIES else retval,
                 snd (invoke H (Pam_set_item PAM_AUTHTOK None) w3)))"
  using assms pam_parse_facts [OF assms(1)]
  by (simp add: pam_sm_chauthtok_def)

text \<open>
  The five ways a run of the entry point can go, with what each leaves in the trace.
\<close>

lemma chauthtok_run:
  fixes K H flags argv h
  defines "run \<equiv> pam_sm_chauthtok K H flags argv h"
  defines "N \<equiv> effective_retry H argv h"
  obtains
    (buf_err) "\<not> settings_allocated H h" "fst run = PAM_BUF_ERR"
      "\<forall>e\<in>set (trace (snd run)). setup_call (fst e)"
      "\<exists>ev. trace (snd run) = trace (snd (snd (pam_parse H init_options argv (start h)))) @ ev"
  | (prelim) "settings_allocated H h" "flags AND PAM_PRELIM_CHECK \<noteq> 0" "fst run = PAM_SUCCESS"
      "\<forall>e\<in>set (trace (snd run)). setup_call (fst e)"
      "\<exists>ev. trace (snd run) = trace (snd (snd (pam_parse H init_options argv (start h)))) @ ev"
  | (service_err) "settings_allocated H h" "\<not> update_requested flags"
      "fst run = PAM_SERVICE_ERR" "\<forall>e\<in>set (trace (snd run)). setup_call (fst e)"
      "\<exists>ev. trace (snd run) = trace (snd (snd (pam_parse H init_options argv (start h)))) @ ev"
  | (returned) s where "settings_allocated H h" "update_requested flags"
      "loop_result K H flags argv h = Inl s" "fst run = s" "trace (snd run) \<noteq> []"
      "\<forall>e\<in>set (butlast (trace (snd run))). \<not> abort_event e"
      "cycles (trace (snd run)) \<le> nat N"
      "(s = PAM_SUCCESS \<and> verified (trace (snd run)) \<and> \<not> abort_event (last (trace (snd run))))
       \<or> (s = PAM_AUTHTOK_ERR \<and> abort_event (last (trace (snd run))))"
      "\<exists>ev. trace (snd run) = trace (snd (snd (pam_parse H init_options argv (start h)))) @ ev"
  | (exhausted) x where "settings_allocated H h" "update_requested flags"
      "loop_result K H flags argv h = Inr x"
      "fst run = (if 1 < N then PAM_MAXTRIES else x)"
      "cleared (trace (snd run))" "\<forall>e\<in>set (trace (snd run)). \<not> abort_event e"
      "cycles (trace (snd run)) = nat N" "x = retval_of flags (trace (snd run))"
      "x \<noteq> PAM_SUCCESS"
      "\<exists>ev. trace (snd run) = trace (snd (snd (pam_parse H init_options argv (start h)))) @ ev"
proof -
  obtain ctrl options w where p: "pam_parse H init_options argv (start h) = (ctrl, options, w)"
    by (cases "pam_parse H init_options argv (start h)") auto
  note pf = pam_parse_facts [OF p]
  have w: "snd (snd (pam_parse H init_options argv (start h))) = w"
    by (simp add: p)
  have N: "N = retry_times options"
    by (simp add: N_def effective_retry_def p)
  show thesis
  proof (cases "settings_allocated H h")
    case False
    with pf p have "run = (PAM_BUF_ERR, w)"
      by (simp add: run_def pam_sm_chauthtok_def)
    with pf False show thesis by (intro buf_err) (auto simp: w)
  next
    case alloc: True
    with pf have c: "\<not> ctrl < 0" by simp
    show thesis
    proof (cases "flags AND PAM_PRELIM_CHECK \<noteq> 0")
      case True
      with c p have "run = (PAM_SUCCESS, w)"
        by (simp add: run_def pam_sm_chauthtok_def)
      with pf alloc True show thesis by (intro prelim) (auto simp: w)
    next
      case np: False
      show thesis
      proof (cases "flags AND PAM_UPDATE_AUTHTOK \<noteq> 0")
        case False
        with c p np have "fst run = PAM_SERVICE_ERR"
          "trace (snd run) = trace w \<or>
           (\<exists>a. trace (snd run) = trace w @ [(Pam_syslog LOG_NOTICE (Unknown_flags_setting flags), a)])"
          by (simp_all add: run_def pam_sm_chauthtok_def)
        with pf alloc False show thesis
          by (intro service_err) (auto simp: update_requested_def setup_call_def w)
      next
        case True
        with np have ur: "update_requested flags" by (simp add: update_requested_def)
        obtain res w3 where u: "update_phase K H ctrl flags options w = (res, w3)"
          by (cases "update_phase K H ctrl flags options w") auto
        have lr: "loop_result K H flags argv h = res"
          by (simp add: loop_result_def p u)
        from pf have r1: "1 \<le> retry_times options" and sc: "\<forall>e\<in>set (trace w). setup_call (fst e)"
          by simp_all
        note uf = update_phase_facts [OF u r1 sc]
        have run_eq: "run = (case res of
              Inl status \<Rightarrow> (status, w3)
            | Inr retval \<Rightarrow>
                (if retry_times options > 1 then PAM_MAXTRIES else retval,
                 snd (invoke H (Pam_set_item PAM_AUTHTOK None) w3)))"
          using chauthtok_update [OF p alloc _ True, where K = K] np u
          by (simp add: run_def split: sum.splits)
        show thesis
        proof (cases res)
          case (Inl s)
          with run_eq have "run = (s, w3)" by simp
          with uf Inl lr alloc ur N show thesis
            by (intro returned [of s]) (auto simp: w)
        next
          case (Inr x)
          with run_eq have re: "fst run = (if 1 < N then PAM_MAXTRIES else x)"
            "trace (snd run) = trace w3 @ [(Pam_set_item PAM_AUTHTOK None,
                  fst (invoke H (Pam_set_item PAM_AUTHTOK None) w3))]"
            by (simp_all add: N)
          with uf Inr lr alloc ur N show thesis
            by (intro exhausted [of x]) (auto simp: w)
        qed
      qed
    qed
  qed
qed

text \<open>A cycle in which \<open>getuid\<close> was called: the two shapes of what it adds to the trace.\<close>

lemma cycle_events:
  assumes a: "attempt K H ctrl flags old w = (out, w')" and t: "trace w' = trace w @ ev"
    and g: "(Getuid, u) \<in> set ev"
  obtains
    (rejected) r tok q dbg e c where
      "rc u \<noteq> 0 \<or> flags AND PAM_CHANGE_EXPIRED_AUTHTOK \<noteq> 0" "rc q < 0"
      "out = Continue PAM_AUTHTOK_ERR" "debug_log dbg"
      "ev = [(Pam_get_authtok_noverify, r), (Pwquality_check tok old, q)] @ dbg
             @ [(Pam_error (make_error_message K (rc q) (ptr q)), e), (Getuid, u),
                (Pam_set_item PAM_AUTHTOK None, c)]"
  | (override) r tok q dbg e v post where
      "rc u = 0" "flags AND PAM_CHANGE_EXPIRED_AUTHTOK = 0" "rc q < 0" "debug_log dbg"
      "ev = [(Pam_get_authtok_noverify, r), (Pwquality_check tok old, q)] @ dbg
             @ [(Pam_error (make_error_message K (rc q) (ptr q)), e), (Getuid, u),
                (Pam_get_authtok_verify tok, v)] @ post"
      "if rc v \<noteq> PAM_SUCCESS
       then out = Continue (rc v) \<and>
            (\<exists>a b. post = [(Pam_syslog LOG_ERR (Verify_returned_error (rc v)), a),
                            (Pam_set_item PAM_AUTHTOK None, b)])
       else post = [] \<and> out = Return (if ptr v = None then PAM_AUTHTOK_ERR else PAM_SUCCESS)"
  using a
proof (cases rule: attempt_paths)
  case (noverify_error r a)
  with t g show ?thesis by auto
next
  case (aborted r)
  with t g show ?thesis by auto
next
  case (rejected r tok q dbg e u' c)
  with t g have "u' = u" by (auto simp: debug_log_def)
  with rejected t that(1) show ?thesis by auto
next
  case (override r tok q dbg e u' w5)
  from verify_step_trace [OF override(8)] obtain v post where
    v: "trace w' = trace w5 @ (Pam_get_authtok_verify tok, v) # post"
       "if rc v \<noteq> PAM_SUCCESS
       then out = Continue (rc v) \<and>
            (\<exists>a b. post = [(Pam_syslog LOG_ERR (Verify_returned_error (rc v)), a),
                            (Pam_set_item PAM_AUTHTOK None, b)])
       else post = [] \<and> out = Return (if ptr v = None then PAM_AUTHTOK_ERR else PAM_SUCCESS)"
    by blast
  from v(1) override(7) t
  have ev: "ev = [(Pam_get_authtok_noverify, r), (Pwquality_check tok old, q)] @ dbg
             @ [(Pam_error (make_error_message K (rc q) (ptr q)), e), (Getuid, u'),
                (Pam_get_authtok_verify tok, v)] @ post"
    by simp
  with g v(2) override(6) have "u' = u"
    by (auto simp: debug_log_def split: if_splits)
  with ev v(2) override that(2) show ?thesis by blast
next
  case (accepted r tok q dbg w3)
  from verify_step_trace [OF accepted(6)] obtain v post where
    v: "trace w' = trace w3 @ (Pam_get_authtok_verify tok, v) # post"
       "if rc v \<noteq> PAM_SUCCESS
       then out = Continue (rc v) \<and>
            (\<exists>a b. post = [(Pam_syslog LOG_ERR (Verify_returned_error (rc v)), a),
                            (Pam_set_item PAM_AUTHTOK None, b)])
       else post = [] \<and> out = Return (if ptr v = None then PAM_AUTHTOK_ERR else PAM_SUCCESS)"
    by blast
  from v(1) accepted(5) t
  have "ev = [(Pam_get_authtok_noverify, r), (Pwquality_check tok old, q)] @ dbg
             @ [(Pam_get_authtok_verify tok, v)] @ post"
    by simp
  with g v(2) accepted(4) show ?thesis
    by (auto simp: debug_log_def split: if_splits)
qed

lemma update_loop_step:
  assumes "attempt K H ctrl flags old w = (out, w')" and "tries < retry"
  shows "update_loop K H ctrl flags retry old tries rv w =
           (case out of
              Return status \<Rightarrow> (Inl status, w')
            | Continue rv' \<Rightarrow> update_loop K H ctrl flags retry old (tries + 1) rv' w')"
  using assms by (simp add: update_loop.simps [of K H ctrl flags retry old tries rv w])

subsection \<open>The options \<open>retry=\<close> and \<open>type=\<close>\<close>

lemma parse_args_append: "parse_args H (xs @ ys) s = parse_args H ys (parse_args H xs s)"
  by (simp add: parse_args_def)

lemma parse_args_Cons: "parse_args H (a # ys) s = parse_args H ys (parse_arg H a s)"
  by (simp add: parse_args_def)

lemma strtol_ep: "snd (strtol v) \<noteq> None"
  by (simp add: strtol_def Let_def)

lemma parse_arg_retry_option:
  "parse_arg H (''retry='' @ v) (c, opt, w) =
     (c, opt\<lparr>retry_times := (if long_to_int (fst (strtol v)) < 1 then 1
                               else long_to_int (fst (strtol v)))\<rparr>, w)"
proof -
  obtain n e where "strtol v = (n, Some e)"
    using strtol_ep [of v] by (cases "strtol v") auto
  then show ?thesis
    by (simp add: parse_arg_def Let_def CO_RETRY_TIMES_def)
qed

lemma parse_arg_keeps_retry:
  "take 6 a \<noteq> ''retry='' \<Longrightarrow>
   retry_times (fst (snd (parse_arg H a (c, opt, w)))) = retry_times opt"
  by (simp add: parse_arg_def case_prod_beta Let_def)

lemma parse_args_keep_retry:
  "\<forall>a\<in>set post. take 6 a \<noteq> ''retry='' \<Longrightarrow>
   retry_times (fst (snd (parse_args H post s))) = retry_times (fst (snd s))"
proof (induction post arbitrary: s)
  case Nil
  then show ?case by (simp add: parse_args_def)
next
  case (Cons a post)
  obtain c opt w where s: "s = (c, opt, w)" by (cases s) auto
  from Cons.prems have "take 6 a \<noteq> ''retry=''" "\<forall>a\<in>set post. take 6 a \<noteq> ''retry=''"
    by simp_all
  with Cons.IH [of "parse_arg H a s"] parse_arg_keeps_retry [of a H c opt w] s
  show ?case by (simp add: parse_args_Cons)
qed

lemma pam_parse_retry:
  assumes "settings_allocated H h"
  shows "\<exists>s. effective_retry H argv h = retry_times (fst (snd (parse_args H argv s)))"
proof -
  define r0 where "r0 = fst (invoke H Pwquality_default_settings (start h))"
  have "r0 = fst (H Pwquality_default_settings h)"
    by (simp add: r0_def invoke_def start_def case_prod_beta)
  with assms have "ptr r0 \<noteq> None" by (simp add: settings_allocated_def)
  then show ?thesis
    unfolding effective_retry_def pam_parse_def r0_def
    by (auto simp: case_prod_beta Let_def)
qed

lemma strtol_no_leading_number:
  assumes "no_leading_number v"
  shows "fst (strtol v) = 0"
proof -
  define s1 where "s1 = dropWhile isspace_c v"
  define s2 where "s2 = (if s1 \<noteq> [] \<and> (hd s1 = CHR ''-'' \<or> hd s1 = CHR ''+'') then tl s1 else s1)"
  have "takeWhile isdigit_c s2 = []"
  proof (cases s1)
    case Nil
    then show ?thesis by (simp add: s2_def)
  next
    case (Cons c cs)
    show ?thesis
    proof (cases "c = CHR ''-'' \<or> c = CHR ''+''")
      case True
      with assms Cons have "cs = [] \<or> \<not> isdigit_c (hd cs)"
        by (auto simp: no_leading_number_def s1_def [symmetric] split: list.splits)
      moreover from True Cons have "s2 = cs" by (simp add: s2_def)
      ultimately show ?thesis by (cases cs) auto
    next
      case False
      with assms Cons have "\<not> isdigit_c c"
        by (auto simp: no_leading_number_def s1_def [symmetric])
      moreover from False Cons have "s2 = c # cs" by (simp add: s2_def)
      ultimately show ?thesis by simp
    qed
  qed
  then show ?thesis
    unfolding strtol_def Let_def s2_def s1_def by simp
qed

text \<open>A value part without a leading number is not numeric; the converse fails.\<close>

lemma no_leading_number_non_numeric:
  assumes "no_leading_number v"
  shows "non_numeric v"
proof (rule ccontr)
  assume "\<not> non_numeric v"
  then have n: "numeric v" by (simp add: non_numeric_def)
  define ds where "ds = (if v \<noteq> [] \<and> (hd v = CHR ''-'' \<or> hd v = CHR ''+'') then tl v else v)"
  from n have d: "ds \<noteq> []" "list_all isdigit_c ds"
    by (simp_all add: numeric_def ds_def Let_def)
  then obtain d ds' where ds: "ds = d # ds'" "isdigit_c d"
    by (cases ds) auto
  have sp: "\<not> isspace_c CHR ''-''" "\<not> isspace_c CHR ''+''" "\<not> isspace_c d"
    using ds(2) by (auto simp: isspace_c_def isdigit_c_def)
  have sg: "d \<noteq> CHR ''-''" "d \<noteq> CHR ''+''"
    using ds(2) by (auto simp: isdigit_c_def)
  show False
  proof (cases "v \<noteq> [] \<and> (hd v = CHR ''-'' \<or> hd v = CHR ''+'')")
    case True
    then obtain c where v: "v = c # d # ds'" "c = CHR ''-'' \<or> c = CHR ''+''"
      using ds(1) by (cases v) (auto simp: ds_def)
    with sp have "dropWhile isspace_c v = c # d # ds'" by auto
    with assms v(2) ds(2) show False by (auto simp: no_leading_number_def)
  next
    case False
    then have v: "v = d # ds'" using ds(1) by (auto simp: ds_def)
    with sp have "dropWhile isspace_c v = d # ds'" by simp
    with assms sg ds(2) show False by (simp add: no_leading_number_def)
  qed
qed

lemma strtol_zero: "fst (strtol ''0'') = 0"
  by code_simp

lemma long_to_int_zero: "long_to_int 0 = 0"
  by (simp add: long_to_int_def)

lemma parse_args_type_option:
  "''type='' @ x \<in> set argv \<Longrightarrow> parse_args H argv (c, opt, w) = (c', opt', w') \<Longrightarrow>
   Pam_set_item PAM_AUTHTOK_TYPE (Some x) \<in> set (map fst (trace w'))"
proof (induction argv arbitrary: c' opt' w' rule: rev_induct)
  case Nil
  then show ?case by simp
next
  case (snoc a argv)
  obtain c1 opt1 w1 where s1: "parse_args H argv (c, opt, w) = (c1, opt1, w1)"
    by (cases "parse_args H argv (c, opt, w)") auto
  with snoc.prems have step: "parse_arg H a (c1, opt1, w1) = (c', opt', w')"
    by (simp add: parse_args_def)
  from parse_arg_trace [OF step] obtain ev where ev: "trace w' = trace w1 @ ev" by blast
  show ?case
  proof (cases "''type='' @ x \<in> set argv")
    case True
    from snoc.IH [OF True s1] ev show ?thesis by simp
  next
    case False
    with snoc.prems have "a = ''type='' @ x" by simp
    with step have "w' = snd (invoke H (Pam_set_item PAM_AUTHTOK_TYPE (Some x)) w1)"
      by (auto simp: parse_arg_def)
    then show ?thesis by simp
  qed
qed

lemma pam_parse_type_option:
  assumes "settings_allocated H h" and "''type='' @ x \<in> set argv"
  shows "Pam_set_item PAM_AUTHTOK_TYPE (Some x)
           \<in> set (map fst (trace (snd (snd (pam_parse H init_options argv (start h))))))"
proof -
  define r0 where "r0 = fst (invoke H Pwquality_default_settings (start h))"
  have "r0 = fst (H Pwquality_default_settings h)"
    by (simp add: r0_def invoke_def start_def case_prod_beta)
  with assms have a: "ptr r0 \<noteq> None" by (simp add: settings_allocated_def)
  then obtain s where
    "snd (snd (pam_parse H init_options argv (start h))) = snd (snd (parse_args H argv s))"
    unfolding pam_parse_def r0_def
    by (auto simp: case_prod_beta Let_def)
  moreover obtain c opt w where "s = (c, opt, w)" by (cases s) auto
  moreover obtain c' opt' w' where "parse_args H argv (c, opt, w) = (c', opt', w')"
    by (cases "parse_args H argv (c, opt, w)") auto
  ultimately show ?thesis
    using parse_args_type_option [OF assms(2), of H c opt w c' opt' w'] by simp
qed

section \<open>Success and verification\<close>

text \<open>
  C1, as stated: for every input, a return of the success status implies that the last
  host call was a \<open>pam_get_authtok_verify\<close> that answered success with a token. This
  fails for the preliminary check: with the flag \<open>PAM_PRELIM_CHECK\<close> the entry point
  returns \<open>PAM_SUCCESS\<close> right after option parsing, and no token was requested.
\<close>

theorem prelim_success_unverified:
  "fst (pam_sm_chauthtok sample_codes script_host PAM_PRELIM_CHECK [] prelim_script) = PAM_SUCCESS
   \<and> \<not> verified (trace (snd (pam_sm_chauthtok sample_codes script_host PAM_PRELIM_CHECK []
                                 prelim_script)))"
  by code_simp

text \<open>
  C1, amended: when the flag \<open>PAM_PRELIM_CHECK\<close> is not set, a return of \<open>PAM_SUCCESS\<close>
  implies that the last host call of the invocation was a \<open>pam_get_authtok_verify\<close> that
  answered \<open>PAM_SUCCESS\<close> with a token that is not \<open>NULL\<close>.
\<close>

theorem success_implies_verified:
  assumes "flags AND PAM_PRELIM_CHECK = 0"
    and "fst (pam_sm_chauthtok K H flags argv h) = PAM_SUCCESS"
  shows "verified (trace (snd (pam_sm_chauthtok K H flags argv h)))"
proof (cases rule: chauthtok_run [where K = K and H = H and flags = flags and argv = argv and h = h])
  case buf_err
  with assms show ?thesis by simp
next
  case prelim
  with assms show ?thesis by simp
next
  case service_err
  with assms show ?thesis by simp
next
  case (returned s)
  with assms show ?thesis by auto
next
  case (exhausted x)
  with assms show ?thesis by (auto split: if_splits)
qed

theorem success_implies_verified_witness:
  "PAM_UPDATE_AUTHTOK AND PAM_PRELIM_CHECK = 0
   \<and> fst (pam_sm_chauthtok sample_codes script_host PAM_UPDATE_AUTHTOK [] accept_script)
       = PAM_SUCCESS
   \<and> verified (trace (snd (pam_sm_chauthtok sample_codes script_host PAM_UPDATE_AUTHTOK []
                               accept_script)))"
proof -
  have f: "PAM_UPDATE_AUTHTOK AND PAM_PRELIM_CHECK = 0"
    by code_simp
  have s: "fst (pam_sm_chauthtok sample_codes script_host PAM_UPDATE_AUTHTOK [] accept_script)
             = PAM_SUCCESS"
    by code_simp
  note v = success_implies_verified [OF f s]
  from f s v show ?thesis by blast
qed

section \<open>Exhaustion of the retry loop\<close>

text \<open>
  C2. In the update phase, when the loop is exhausted (it ends by its condition, with
  the last \<open>retval\<close>), the entry point returns \<open>PAM_MAXTRIES\<close> if the retry limit is
  greater than 1 and the last \<open>retval\<close> if the limit is 1. That \<open>retval\<close> is the value
  the assignments of the source give along the calls made, it is never \<open>PAM_SUCCESS\<close>,
  and the last call before the return is the clearing of \<open>PAM_AUTHTOK\<close>.
\<close>

theorem exhaustion_status:
  assumes "settings_allocated H h" and "update_requested flags"
    and "loop_result K H flags argv h = Inr retval"
  shows "(1 < effective_retry H argv h \<longrightarrow> fst (pam_sm_chauthtok K H flags argv h) = PAM_MAXTRIES)
       \<and> (effective_retry H argv h = 1 \<longrightarrow> fst (pam_sm_chauthtok K H flags argv h) = retval)
       \<and> retval = retval_of flags (trace (snd (pam_sm_chauthtok K H flags argv h)))
       \<and> retval \<noteq> PAM_SUCCESS
       \<and> cleared (trace (snd (pam_sm_chauthtok K H flags argv h)))"
proof (cases rule: chauthtok_run [where K = K and H = H and flags = flags and argv = argv and h = h])
  case buf_err
  with assms show ?thesis by simp
next
  case prelim
  with assms show ?thesis by (simp add: update_requested_def)
next
  case service_err
  with assms show ?thesis by simp
next
  case (returned s)
  with assms show ?thesis by simp
next
  case (exhausted x)
  with assms show ?thesis by simp
qed

theorem exhaustion_status_witness:
  "settings_allocated script_host reject_script \<and> update_requested PAM_UPDATE_AUTHTOK
   \<and> loop_result sample_codes script_host PAM_UPDATE_AUTHTOK [''retry=1''] reject_script
       = Inr PAM_AUTHTOK_ERR
   \<and> effective_retry script_host [''retry=1''] reject_script = 1
   \<and> fst (pam_sm_chauthtok sample_codes script_host PAM_UPDATE_AUTHTOK [''retry=1''] reject_script)
       = PAM_AUTHTOK_ERR
   \<and> cleared (trace (snd (pam_sm_chauthtok sample_codes script_host PAM_UPDATE_AUTHTOK
                              [''retry=1''] reject_script)))"
proof -
  have a: "settings_allocated script_host reject_script"
    by code_simp
  have u: "update_requested PAM_UPDATE_AUTHTOK"
    by code_simp
  have l: "loop_result sample_codes script_host PAM_UPDATE_AUTHTOK [''retry=1''] reject_script
             = Inr PAM_AUTHTOK_ERR"
    by code_simp
  have n: "effective_retry script_host [''retry=1''] reject_script = 1"
    by code_simp
  note e = exhaustion_status [OF a u l]
  from a u l n e show ?thesis by blast
qed

section \<open>Root may override a rejection\<close>

text \<open>
  C3. In a cycle of the update phase in which the quality check gave a negative result,
  \<open>getuid\<close> answered 0 (root) and the flag \<open>PAM_CHANGE_EXPIRED_AUTHTOK\<close> is not set: the
  call that follows \<open>getuid\<close> is the verification of the same candidate, the pending
  token has not been cleared before it, and when the verification answers success with
  a token the cycle returns \<open>PAM_SUCCESS\<close> from the loop.
\<close>

theorem root_override:
  assumes "attempt K H ctrl flags old w = (out, w')" and "trace w' = trace w @ ev"
    and "(Pwquality_check tok old, q) \<in> set ev" and "rc q < 0"
    and "(Getuid, u) \<in> set ev" and "rc u = 0"
    and "flags AND PAM_CHANGE_EXPIRED_AUTHTOK = 0"
  shows "\<exists>pre v post.
           ev = pre @ (Getuid, u) # (Pam_get_authtok_verify tok, v) # post
           \<and> Pam_set_item PAM_AUTHTOK None \<notin> set (map fst pre)
           \<and> (rc v = PAM_SUCCESS \<and> ptr v \<noteq> None \<longrightarrow>
                post = [] \<and> out = Return PAM_SUCCESS
                \<and> (\<forall>retry tries rv. tries < retry \<longrightarrow>
                      update_loop K H ctrl flags retry old tries rv w = (Inl PAM_SUCCESS, w')))"
  using assms(1,2,5)
proof (cases rule: cycle_events)
  case (rejected r tok' q' dbg e c)
  with assms show ?thesis by simp
next
  case (override r tok' q' dbg e v post)
  from override(4,5,6) assms(3) have tk: "tok' = tok"
    by (auto simp: debug_log_def split: if_splits)
  define pre where "pre = [(Pam_get_authtok_noverify, r), (Pwquality_check tok old, q')] @ dbg
             @ [(Pam_error (make_error_message K (rc q') (ptr q')), e)]"
  have ev: "ev = pre @ (Getuid, u) # (Pam_get_authtok_verify tok, v) # post"
    using override(5) tk by (simp add: pre_def)
  have nc: "Pam_set_item PAM_AUTHTOK None \<notin> set (map fst pre)"
    using override(4) by (auto simp: pre_def debug_log_def)
  have "post = [] \<and> out = Return PAM_SUCCESS
        \<and> (\<forall>retry tries rv. tries < retry \<longrightarrow>
              update_loop K H ctrl flags retry old tries rv w = (Inl PAM_SUCCESS, w'))"
    if "rc v = PAM_SUCCESS" "ptr v \<noteq> None"
  proof -
    from that override(6) have o: "post = []" "out = Return PAM_SUCCESS" by auto
    with update_loop_step [OF assms(1)] show ?thesis by simp
  qed
  with ev nc show ?thesis by blast
qed

theorem root_override_witness:
  "attempt sample_codes script_host 0 PAM_UPDATE_AUTHTOK (Some ''OldPass1!'') (start root_cycle)
     = (Return PAM_SUCCESS, \<lparr>hstate = [], trace = root_cycle_trace\<rparr>)
   \<and> (Pwquality_check ''weak'' (Some ''OldPass1!''), ans (- 15) None) \<in> set root_cycle_trace
   \<and> rc (ans (- 15) None) < 0
   \<and> (Getuid, ans 0 None) \<in> set root_cycle_trace \<and> rc (ans 0 None) = 0
   \<and> PAM_UPDATE_AUTHTOK AND PAM_CHANGE_EXPIRED_AUTHTOK = 0
   \<and> (\<exists>pre v post.
         root_cycle_trace = pre @ (Getuid, ans 0 None) # (Pam_get_authtok_verify ''weak'', v) # post
         \<and> Pam_set_item PAM_AUTHTOK None \<notin> set (map fst pre)
         \<and> (rc v = PAM_SUCCESS \<and> ptr v \<noteq> None \<longrightarrow>
              post = [] \<and> Return PAM_SUCCESS = Return PAM_SUCCESS
              \<and> (\<forall>retry tries rv. tries < retry \<longrightarrow>
                    update_loop sample_codes script_host 0 PAM_UPDATE_AUTHTOK retry
                      (Some ''OldPass1!'') tries rv (start root_cycle)
                    = (Inl PAM_SUCCESS, \<lparr>hstate = [], trace = root_cycle_trace\<rparr>))))
   \<and> fst (pam_sm_chauthtok sample_codes script_host PAM_UPDATE_AUTHTOK [] root_script) = PAM_SUCCESS"
proof -
  have a: "attempt sample_codes script_host 0 PAM_UPDATE_AUTHTOK (Some ''OldPass1!'')
             (start root_cycle)
           = (Return PAM_SUCCESS, \<lparr>hstate = [], trace = root_cycle_trace\<rparr>)"
    by code_simp
  have t: "trace \<lparr>hstate = ([] :: response list), trace = root_cycle_trace\<rparr>
             = trace (start root_cycle) @ root_cycle_trace"
    by (simp add: start_def)
  have c: "(Pwquality_check ''weak'' (Some ''OldPass1!''), ans (- 15) None) \<in> set root_cycle_trace"
    by (simp add: root_cycle_trace_def)
  have n: "rc (ans (- 15) None) < 0"
    by (simp add: ans_def)
  have g: "(Getuid, ans 0 None) \<in> set root_cycle_trace"
    by (simp add: root_cycle_trace_def)
  have z: "rc (ans 0 None) = 0"
    by (simp add: ans_def)
  have f: "PAM_UPDATE_AUTHTOK AND PAM_CHANGE_EXPIRED_AUTHTOK = 0"
    by code_simp
  have s: "fst (pam_sm_chauthtok sample_codes script_host PAM_UPDATE_AUTHTOK [] root_script)
             = PAM_SUCCESS"
    by code_simp
  note r = root_override [OF a t c n g z f]
  from a c n g z f s r show ?thesis by blast
qed

section \<open>Clearing of the pending token\<close>

text \<open>
  C4, as stated: every failure return of the update phase ends by clearing the pending
  token. This fails on the two abort returns. Here the candidate was entered and
  accepted, the verification answered success with \<open>NULL\<close>, and the entry point returned
  \<open>PAM_AUTHTOK_ERR\<close> at once: the last call is not the clearing, and no clearing call was
  made at all.
\<close>

theorem abort_return_not_cleared:
  "fst (pam_sm_chauthtok sample_codes script_host PAM_UPDATE_AUTHTOK [] abort_script)
     = PAM_AUTHTOK_ERR
   \<and> \<not> cleared (trace (snd (pam_sm_chauthtok sample_codes script_host PAM_UPDATE_AUTHTOK []
                                abort_script)))
   \<and> Pam_set_item PAM_AUTHTOK None
       \<notin> set (map fst (trace (snd (pam_sm_chauthtok sample_codes script_host PAM_UPDATE_AUTHTOK []
                                      abort_script))))"
  by code_simp

text \<open>
  C4, amended: a failure return of the update phase either ends by clearing the
  pending token (this is the return after exhaustion of the loop), or it is the abort
  return: the status is \<open>PAM_AUTHTOK_ERR\<close> and the last call is a token retrieval that
  answered success with a \<open>NULL\<close> token, after which the module makes no call.
\<close>

theorem failure_cleared_or_abort:
  assumes "settings_allocated H h" and "update_requested flags"
    and "fst (pam_sm_chauthtok K H flags argv h) \<noteq> PAM_SUCCESS"
  shows "cleared (trace (snd (pam_sm_chauthtok K H flags argv h)))
       \<or> (fst (pam_sm_chauthtok K H flags argv h) = PAM_AUTHTOK_ERR
          \<and> trace (snd (pam_sm_chauthtok K H flags argv h)) \<noteq> []
          \<and> abort_event (last (trace (snd (pam_sm_chauthtok K H flags argv h)))))"
proof (cases rule: chauthtok_run [where K = K and H = H and flags = flags and argv = argv and h = h])
  case buf_err
  with assms show ?thesis by simp
next
  case prelim
  with assms show ?thesis by simp
next
  case service_err
  with assms show ?thesis by simp
next
  case (returned s)
  with assms show ?thesis by auto
next
  case (exhausted x)
  with assms show ?thesis by simp
qed

theorem failure_cleared_or_abort_witness:
  "settings_allocated script_host reject_script \<and> update_requested PAM_UPDATE_AUTHTOK
   \<and> fst (pam_sm_chauthtok sample_codes script_host PAM_UPDATE_AUTHTOK [''retry=2''] reject_script)
       \<noteq> PAM_SUCCESS
   \<and> (cleared (trace (snd (pam_sm_chauthtok sample_codes script_host PAM_UPDATE_AUTHTOK
                               [''retry=2''] reject_script)))
       \<or> (fst (pam_sm_chauthtok sample_codes script_host PAM_UPDATE_AUTHTOK [''retry=2'']
                 reject_script) = PAM_AUTHTOK_ERR
          \<and> trace (snd (pam_sm_chauthtok sample_codes script_host PAM_UPDATE_AUTHTOK [''retry=2'']
                          reject_script)) \<noteq> []
          \<and> abort_event (last (trace (snd (pam_sm_chauthtok sample_codes script_host
                                              PAM_UPDATE_AUTHTOK [''retry=2''] reject_script))))))"
proof -
  have a: "settings_allocated script_host reject_script"
    by code_simp
  have u: "update_requested PAM_UPDATE_AUTHTOK"
    by code_simp
  have f: "fst (pam_sm_chauthtok sample_codes script_host PAM_UPDATE_AUTHTOK [''retry=2'']
                 reject_script) \<noteq> PAM_SUCCESS"
    by code_simp
  note c = failure_cleared_or_abort [OF a u f]
  from a u f c show ?thesis by blast
qed

section \<open>Abort on a null token\<close>

lemma only_last:
  assumes "\<forall>e\<in>set (butlast tr). \<not> P e" and "i < length tr" and "P (tr ! i)"
  shows "Suc i = length tr"
proof (rule ccontr)
  assume "Suc i \<noteq> length tr"
  with assms(2) have i: "i < length (butlast tr)" by simp
  then have "butlast tr ! i \<in> set (butlast tr)" by (rule nth_mem)
  with i assms(1,3) show False by (simp add: nth_butlast)
qed

text \<open>
  C5. Whenever a token retrieval (\<open>pam_get_authtok_noverify\<close> or
  \<open>pam_get_authtok_verify\<close>) answers success with a \<open>NULL\<close> token, the entry point returns
  \<open>PAM_AUTHTOK_ERR\<close> and that retrieval is the last call of the invocation: no further
  cycle is run.
\<close>

theorem null_token_aborts:
  assumes "i < length (trace (snd (pam_sm_chauthtok K H flags argv h)))"
    and "abort_event (trace (snd (pam_sm_chauthtok K H flags argv h)) ! i)"
  shows "fst (pam_sm_chauthtok K H flags argv h) = PAM_AUTHTOK_ERR
       \<and> Suc i = length (trace (snd (pam_sm_chauthtok K H flags argv h)))"
proof -
  from assms have m: "\<exists>e\<in>set (trace (snd (pam_sm_chauthtok K H flags argv h))). abort_event e"
    using nth_mem by blast
  show ?thesis
  proof (cases rule: chauthtok_run [where K = K and H = H and flags = flags and argv = argv and h = h])
    case buf_err
    with m show ?thesis by (auto dest: setup_call_not_abort)
  next
    case prelim
    with m show ?thesis by (auto dest: setup_call_not_abort)
  next
    case service_err
    with m show ?thesis by (auto dest: setup_call_not_abort)
  next
    case (returned s)
    from only_last [OF returned(6) assms] have l: "Suc i = length (trace (snd (pam_sm_chauthtok K H flags argv h)))" .
    then have "last (trace (snd (pam_sm_chauthtok K H flags argv h)))
                 = trace (snd (pam_sm_chauthtok K H flags argv h)) ! i"
      using returned(5) by (metis diff_Suc_1 last_conv_nth)
    with returned assms l show ?thesis by auto
  next
    case (exhausted x)
    with m show ?thesis by auto
  qed
qed

theorem null_token_aborts_witness:
  "5 < length (trace (snd (pam_sm_chauthtok sample_codes script_host PAM_UPDATE_AUTHTOK []
                              abort_script)))
   \<and> abort_event (trace (snd (pam_sm_chauthtok sample_codes script_host PAM_UPDATE_AUTHTOK []
                                 abort_script)) ! 5)
   \<and> fst (pam_sm_chauthtok sample_codes script_host PAM_UPDATE_AUTHTOK [] abort_script)
       = PAM_AUTHTOK_ERR
   \<and> Suc 5 = length (trace (snd (pam_sm_chauthtok sample_codes script_host PAM_UPDATE_AUTHTOK []
                                   abort_script)))"
proof -
  have i: "5 < length (trace (snd (pam_sm_chauthtok sample_codes script_host PAM_UPDATE_AUTHTOK []
                              abort_script)))"
    by code_simp
  have a: "abort_event (trace (snd (pam_sm_chauthtok sample_codes script_host PAM_UPDATE_AUTHTOK []
                                 abort_script)) ! 5)"
    by code_simp
  note n = null_token_aborts [OF i a]
  from i a n show ?thesis by blast
qed

section \<open>The bound on the attempt cycles\<close>

text \<open>
  C6. The loop is total: \<open>update_loop\<close> is defined by recursion on the attempts left,
  \<open>retry - tries\<close>, which every cycle decreases. For every invocation the number of attempt
  cycles (requests for a new candidate token) is at most the retry limit in force,
  which is at least 1; when the entry point returns after exhaustion of the loop, the
  number of cycles is exactly the limit.
\<close>

theorem cycles_bounded:
  "1 \<le> effective_retry H argv h
   \<and> cycles (trace (snd (pam_sm_chauthtok K H flags argv h))) \<le> nat (effective_retry H argv h)
   \<and> (settings_allocated H h \<and> update_requested flags
        \<and> loop_result K H flags argv h = Inr retval
      \<longrightarrow> cycles (trace (snd (pam_sm_chauthtok K H flags argv h))) = nat (effective_retry H argv h))"
proof -
  obtain ctrl options w where p: "pam_parse H init_options argv (start h) = (ctrl, options, w)"
    by (cases "pam_parse H init_options argv (start h)") auto
  from pam_parse_facts [OF p] have n: "1 \<le> effective_retry H argv h"
    by (simp add: effective_retry_def p)
  show ?thesis
  proof (cases rule: chauthtok_run [where K = K and H = H and flags = flags and argv = argv and h = h])
    case buf_err
    with n show ?thesis by (simp add: setup_calls_cycles)
  next
    case prelim
    with n show ?thesis by (simp add: setup_calls_cycles update_requested_def)
  next
    case service_err
    with n show ?thesis by (simp add: setup_calls_cycles)
  next
    case (returned s)
    with n show ?thesis by simp
  next
    case (exhausted x)
    with n show ?thesis by simp
  qed
qed

theorem cycles_bounded_witness:
  "settings_allocated script_host reject_script \<and> update_requested PAM_UPDATE_AUTHTOK
   \<and> loop_result sample_codes script_host PAM_UPDATE_AUTHTOK [''retry=2''] reject_script
       = Inr PAM_AUTHTOK_ERR
   \<and> effective_retry script_host [''retry=2''] reject_script = 2
   \<and> cycles (trace (snd (pam_sm_chauthtok sample_codes script_host PAM_UPDATE_AUTHTOK
                             [''retry=2''] reject_script)))
       = nat (effective_retry script_host [''retry=2''] reject_script)"
proof -
  have a: "settings_allocated script_host reject_script"
    by code_simp
  have u: "update_requested PAM_UPDATE_AUTHTOK"
    by code_simp
  have l: "loop_result sample_codes script_host PAM_UPDATE_AUTHTOK [''retry=2''] reject_script
             = Inr PAM_AUTHTOK_ERR"
    by code_simp
  have n: "effective_retry script_host [''retry=2''] reject_script = 2"
    by code_simp
  note c = cycles_bounded [of script_host "[''retry=2'']" reject_script sample_codes
      PAM_UPDATE_AUTHTOK PAM_AUTHTOK_ERR]
  from a u l n c show ?thesis by blast
qed

section \<open>A rejection for another user uses up an attempt\<close>



section \<open>The retry option\<close>

text \<open>
  C8, as stated: for a \<open>retry=\<close> option whose value part is not numeric the retry limit
  in force is the default 1. This fails for a value part that is not a number but
  begins with one: \<open>strtol\<close> reads the leading digits and the check \<open>!ep\<close> never
  fires, so \<open>retry=3abc\<close> sets the limit 3, and the controller then runs three attempt
  cycles.
\<close>

theorem retry_numeric_prefix_kept:
  "non_numeric ''3abc''
   \<and> effective_retry script_host [''retry=3abc''] reject_script = 3
   \<and> cycles (trace (snd (pam_sm_chauthtok sample_codes script_host PAM_UPDATE_AUTHTOK
                             [''retry=3abc''] reject_script))) = 3"
  by code_simp

text \<open>
  C8, amended: when the settings could be allocated and the last \<open>retry=\<close> option of
  the argument list has the value part \<open>v\<close>, the retry limit in force is the value
  \<open>strtol\<close> reads from the leading number of \<open>v\<close>, converted to \<open>int\<close>, if that is at
  least 1, and the default 1 otherwise; what follows the leading number is ignored. In
  particular the limit is 1 for \<open>retry=0\<close> and for a value part that has no leading
  number (\<open>strtol\<close> finds no digits to convert and gives 0), and then the controller runs
  at most one attempt cycle.
\<close>

theorem retry_option_fallback:
  assumes "settings_allocated H h" and "\<forall>a\<in>set post. take 6 a \<noteq> ''retry=''"
  shows "effective_retry H (pre @ [''retry='' @ v] @ post) h
           = (if long_to_int (fst (strtol v)) < 1 then 1 else long_to_int (fst (strtol v)))
       \<and> (v = ''0'' \<or> no_leading_number v \<longrightarrow>
            effective_retry H (pre @ [''retry='' @ v] @ post) h = 1
            \<and> cycles (trace (snd (pam_sm_chauthtok K H flags (pre @ [''retry='' @ v] @ post) h)))
                \<le> 1)"
proof -
  let ?argv = "pre @ [''retry='' @ v] @ post"
  let ?n = "long_to_int (fst (strtol v))"
  from pam_parse_retry [OF assms(1), of ?argv] obtain s where
    e: "effective_retry H ?argv h = retry_times (fst (snd (parse_args H ?argv s)))"
    by blast
  obtain c opt w where s1: "parse_args H pre s = (c, opt, w)"
    by (cases "parse_args H pre s") auto
  have "parse_args H ?argv s = parse_args H post (parse_arg H (''retry='' @ v) (c, opt, w))"
    by (simp add: parse_args_append parse_args_Cons s1 parse_args_def [of H "[]"])
  with e parse_args_keep_retry [OF assms(2)]
  have "effective_retry H ?argv h
          = retry_times (fst (snd (parse_arg H (''retry='' @ v) (c, opt, w))))"
    by simp
  then have 1: "effective_retry H ?argv h = (if ?n < 1 then 1 else ?n)"
    using parse_arg_retry_option [of H v c opt w] by simp
  have 2: "effective_retry H ?argv h = 1
           \<and> cycles (trace (snd (pam_sm_chauthtok K H flags ?argv h))) \<le> 1"
    if "v = ''0'' \<or> no_leading_number v"
  proof -
    from that have "fst (strtol v) = 0"
      using strtol_zero strtol_no_leading_number by blast
    with 1 have one: "effective_retry H ?argv h = 1"
      by (simp add: long_to_int_zero)
    have "cycles (trace (snd (pam_sm_chauthtok K H flags ?argv h)))
            \<le> nat (effective_retry H ?argv h)"
    proof (cases rule: chauthtok_run [where K = K and H = H and flags = flags
                                        and argv = ?argv and h = h])
      case buf_err
      then show ?thesis by (simp add: setup_calls_cycles)
    next
      case prelim
      then show ?thesis by (simp add: setup_calls_cycles)
    next
      case service_err
      then show ?thesis by (simp add: setup_calls_cycles)
    next
      case (returned s)
      then show ?thesis by simp
    next
      case (exhausted x)
      then show ?thesis by simp
    qed
    with one show ?thesis by simp
  qed
  from 1 2 show ?thesis by blast
qed

theorem retry_option_fallback_witness:
  "settings_allocated script_host prelim_script
   \<and> take 6 ''minlen=8'' \<noteq> ''retry='' \<and> no_leading_number ''abc''
   \<and> effective_retry script_host ([''retry=3''] @ [''retry='' @ ''abc''] @ [''minlen=8''])
         prelim_script = 1
   \<and> cycles (trace (snd (pam_sm_chauthtok sample_codes script_host PAM_UPDATE_AUTHTOK
                             ([''retry=3''] @ [''retry='' @ ''abc''] @ [''minlen=8''])
                             prelim_script))) \<le> 1"
proof -
  have a: "settings_allocated script_host prelim_script"
    by code_simp
  have p: "take 6 ''minlen=8'' \<noteq> ''retry=''"
    by simp
  then have b: "\<forall>a\<in>set [''minlen=8'']. take 6 a \<noteq> ''retry=''"
    by simp
  have n: "no_leading_number ''abc''"
    by code_simp
  note r = retry_option_fallback [OF a b, of "[''retry=3'']" "''abc''" sample_codes
      PAM_UPDATE_AUTHTOK]
  from a p n r show ?thesis by blast
qed

text \<open>
  Runs of the parser: \<open>retry=0\<close> and \<open>retry=abc\<close> leave the default; a value part
  that begins with a number is read up to its first character that is not a digit.
\<close>

lemma retry_examples:
  "effective_retry script_host [''retry=0''] prelim_script = 1
   \<and> effective_retry script_host [''retry=abc''] prelim_script = 1
   \<and> effective_retry script_host [''retry=2.9''] prelim_script = 2
   \<and> effective_retry script_host [''retry=7 apples''] prelim_script = 7"
  by code_simp

section \<open>The error messages\<close>

text \<open>
  C9. \<open>make_error_message\<close> returns, for each of the listed error codes, exactly the
  message of the table (the five minimum-count codes all give "is too simple"), for the
  dictionary-check code the message supplied by the library, unchanged, and for every
  other code "Error in service module". The labels of the \<open>switch\<close> are pairwise
  different, as C requires.
\<close>

theorem make_error_message_table:
  assumes "codes_distinct K"
  shows "make_error_message K (PWQ_ERROR_SAME_PASSWORD K) m = Some ''is the same as the old one''
       \<and> make_error_message K (PWQ_ERROR_PALINDROME K) m = Some ''is a palindrome''
       \<and> make_error_message K (PWQ_ERROR_CASE_CHANGES_ONLY K) m = Some ''case changes only''
       \<and> make_error_message K (PWQ_ERROR_TOO_SIMILAR K) m = Some ''is too similar to the old one''
       \<and> make_error_message K (PWQ_ERROR_MIN_DIGITS K) m = Some ''is too simple''
       \<and> make_error_message K (PWQ_ERROR_MIN_UPPERS K) m = Some ''is too simple''
       \<and> make_error_message K (PWQ_ERROR_MIN_LOWERS K) m = Some ''is too simple''
       \<and> make_error_message K (PWQ_ERROR_MIN_OTHERS K) m = Some ''is too simple''
       \<and> make_error_message K (PWQ_ERROR_MIN_LENGTH K) m = Some ''is too simple''
       \<and> make_error_message K (PWQ_ERROR_ROTATED K) m = Some ''is rotated''
       \<and> make_error_message K (PWQ_ERROR_MIN_CLASSES K) m = Some ''not enough character classes''
       \<and> make_error_message K (PWQ_ERROR_MAX_CONSECUTIVE K) m
           = Some ''contains too many same characters consecutively''
       \<and> make_error_message K (PWQ_ERROR_EMPTY_PASSWORD K) m = Some ''No password supplied''
       \<and> make_error_message K (PWQ_ERROR_MEM_ALLOC K) m = Some ''memory allocation error''
       \<and> make_error_message K (PWQ_ERROR_CRACKLIB_CHECK K) m = m
       \<and> (rv \<notin> set (code_list K) \<longrightarrow> make_error_message K rv m = Some ''Error in service module'')"
proof -
  have "distinct (code_list K)" "distinct (rev (code_list K))"
    using assms by (simp_all add: codes_distinct_def)
  then show ?thesis
    unfolding code_list_def make_error_message_def by simp
qed

theorem make_error_message_table_witness:
  "codes_distinct sample_codes
   \<and> make_error_message sample_codes (- 16) (Some ''it is based on a dictionary word'') = Some ''is a palindrome''
   \<and> make_error_message sample_codes (- 15) (Some ''it is based on a dictionary word'') = Some ''is too simple''
   \<and> make_error_message sample_codes (- 23) (Some ''it is based on a dictionary word'')
        = Some ''it is based on a dictionary word''
   \<and> (- 1) \<notin> set (code_list sample_codes)
   \<and> make_error_message sample_codes (- 1) (Some ''it is based on a dictionary word'')
        = Some ''Error in service module''"
proof -
  have d: "codes_distinct sample_codes"
    by (simp add: codes_distinct_def code_list_def sample_codes_def)
  have n: "(- 1) \<notin> set (code_list sample_codes)"
    by (simp add: code_list_def sample_codes_def)
  have s: "PWQ_ERROR_PALINDROME sample_codes = - 16" "PWQ_ERROR_MIN_LENGTH sample_codes = - 15"
    "PWQ_ERROR_CRACKLIB_CHECK sample_codes = - 23"
    by (simp_all add: sample_codes_def)
  from make_error_message_table [OF d, of "Some ''it is based on a dictionary word''" "- 1"] d n
  show ?thesis unfolding s by blast
qed

section \<open>Parsing before the phase dispatch\<close>

text \<open>
  C10. For every invocation and every phase flag, the calls of option parsing come
  first: the trace of the invocation begins with the trace of \<open>_pam_parse\<close>. So when the
  settings cannot be allocated the entry point returns \<open>PAM_BUF_ERR\<close>, also in the
  preliminary check, and when they can, a \<open>type=\<close> option has written the item
  \<open>PAM_AUTHTOK_TYPE\<close>, also in the preliminary check.
\<close>

theorem parse_precedes_dispatch:
  "(\<exists>ev. trace (snd (pam_sm_chauthtok K H flags argv h))
           = trace (snd (snd (pam_parse H init_options argv (start h)))) @ ev)
   \<and> (\<not> settings_allocated H h \<longrightarrow> fst (pam_sm_chauthtok K H flags argv h) = PAM_BUF_ERR)
   \<and> (settings_allocated H h \<and> ''type='' @ x \<in> set argv \<longrightarrow>
        Pam_set_item PAM_AUTHTOK_TYPE (Some x)
          \<in> set (map fst (trace (snd (pam_sm_chauthtok K H flags argv h)))))"
proof -
  have 1: "\<exists>ev. trace (snd (pam_sm_chauthtok K H flags argv h))
           = trace (snd (snd (pam_parse H init_options argv (start h)))) @ ev"
    by (cases rule: chauthtok_run [where K = K and H = H and flags = flags
                                     and argv = argv and h = h])
  have 2: "fst (pam_sm_chauthtok K H flags argv h) = PAM_BUF_ERR" if "\<not> settings_allocated H h"
    using that
    by (cases rule: chauthtok_run [where K = K and H = H and flags = flags
                                     and argv = argv and h = h]) simp_all
  have 3: "Pam_set_item PAM_AUTHTOK_TYPE (Some x)
          \<in> set (map fst (trace (snd (pam_sm_chauthtok K H flags argv h))))"
    if "settings_allocated H h" "''type='' @ x \<in> set argv"
    using pam_parse_type_option [OF that] 1 by auto
  from 1 2 3 show ?thesis by blast
qed

theorem parse_precedes_dispatch_witness:
  "\<not> settings_allocated script_host [ans 0 None]
   \<and> fst (pam_sm_chauthtok sample_codes script_host PAM_PRELIM_CHECK [''type=UNIX''] [ans 0 None])
       = PAM_BUF_ERR
   \<and> settings_allocated script_host prelim_script
   \<and> ''type='' @ ''UNIX'' \<in> set [''type=UNIX'']
   \<and> Pam_set_item PAM_AUTHTOK_TYPE (Some ''UNIX'')
       \<in> set (map fst (trace (snd (pam_sm_chauthtok sample_codes script_host PAM_PRELIM_CHECK
                                      [''type=UNIX''] prelim_script))))"
proof -
  have n: "\<not> settings_allocated script_host [ans 0 None]"
    by code_simp
  have a: "settings_allocated script_host prelim_script"
    by code_simp
  have t: "''type='' @ ''UNIX'' \<in> set [''type=UNIX'']"
    by simp
  note p1 = parse_precedes_dispatch [of sample_codes script_host PAM_PRELIM_CHECK
      "[''type=UNIX'']" "[ans 0 None]" "''UNIX''"]
  note p2 = parse_precedes_dispatch [of sample_codes script_host PAM_PRELIM_CHECK
      "[''type=UNIX'']" prelim_script "''UNIX''"]
  from n a t p1 p2 show ?thesis by blast
qed

end
